theory Spec2Isabelle
  imports Main "HOL-Library.AList"
begin

section \<open>JavaScript values\<close>

text \<open>
  The values that reach the constructor and the lifecycle methods of
  \<^verbatim>\<open>lib/main.js\<close>: options, configuration values, hooks. Numbers are restricted to integers
  (ports, delays); a function value carries a name and whether it has a truthy
  property \<^verbatim>\<open>noop\<close> (the module sets \<^verbatim>\<open>noop.noop = true\<close> on its own
  \<^verbatim>\<open>noop\<close>, line 18); an object is the list of its own properties, the first
  binding of a key being its value.
\<close>

datatype jsval =
    JUndefined
  | JNull
  | JBool bool
  | JNum int
  | JStr string
  | JFun string bool
  | JObj "(string \<times> jsval) list"
  | JArr "jsval list"

text \<open>What is thrown: the \<^verbatim>\<open>TypeError\<close>s of the module and of the language, a
  value thrown by user code (a hook), a failure of a collaborator.\<close>

datatype error =
    TypeError string
  | Thrown jsval
  | External string

fun truthy :: "jsval \<Rightarrow> bool" where
  "truthy JUndefined = False"
| "truthy JNull = False"
| "truthy (JBool b) = b"
| "truthy (JNum n) = (n \<noteq> 0)"
| "truthy (JStr s) = (s \<noteq> [])"
| "truthy (JFun f n) = True"
| "truthy (JObj kvs) = True"
| "truthy (JArr vs) = True"

text \<open>\<^verbatim>\<open>a || b\<close>\<close>

definition js_or :: "jsval \<Rightarrow> jsval \<Rightarrow> jsval" where
  "js_or a b = (if truthy a then a else b)"

fun typeof :: "jsval \<Rightarrow> string" where
  "typeof JUndefined = ''undefined''"
| "typeof JNull = ''object''"
| "typeof (JBool b) = ''boolean''"
| "typeof (JNum n) = ''number''"
| "typeof (JStr s) = ''string''"
| "typeof (JFun f n) = ''function''"
| "typeof (JObj kvs) = ''object''"
| "typeof (JArr vs) = ''object''"

type_synonym object = "(string \<times> jsval) list"

text \<open>\<^verbatim>\<open>o.k\<close> on an object that exists: the property or \<^verbatim>\<open>undefined\<close>.\<close>

definition field :: "object \<Rightarrow> string \<Rightarrow> jsval" where
  "field kvs k = (case map_of kvs k of Some v \<Rightarrow> v | None \<Rightarrow> JUndefined)"

text \<open>
  Reading \<^verbatim>\<open>v.k\<close> for the fixed keys of the module (none of them a member of a
  prototype, apart from \<^verbatim>\<open>noop\<close> on functions): on \<^verbatim>\<open>undefined\<close> and
  \<^verbatim>\<open>null\<close> the language throws a TypeError, on an object it is the own property or
  \<^verbatim>\<open>undefined\<close>.
\<close>

fun get_prop :: "jsval \<Rightarrow> string \<Rightarrow> error + jsval" where
  "get_prop JUndefined k = Inl (TypeError (''Cannot read property '' @ k @ '' of undefined''))"
| "get_prop JNull k = Inl (TypeError (''Cannot read property '' @ k @ '' of null''))"
| "get_prop (JObj kvs) k = Inr (field kvs k)"
| "get_prop (JFun f n) k = Inr (if k = ''noop'' \<and> n then JBool True else JUndefined)"
| "get_prop v k = Inr JUndefined"

section \<open>The content-type gate: \<^verbatim>\<open>accept\<close> (lines 88-95)\<close>

text \<open>
  \<^verbatim>\<open>types.includes(x)\<close> (line 91) compares with SameValueZero: a string, a number,
  a boolean, \<^verbatim>\<open>undefined\<close> and \<^verbatim>\<open>null\<close> are the same as an equal value, an
  object (an array, a function) is the same only as itself. The values that pass the
  gate therefore carry their identity: an object is given by its address, and an object
  of the language's own, a member of \<^verbatim>\<open>Object.prototype\<close>, has its name as address.
  Of an object that is not an array the gate uses nothing but its address and its string
  form (\<^verbatim>\<open>[object Object]\<close>, the source of a function, or what its own conversion
  returns); of an array, its address and its elements.
\<close>

datatype address = Heap nat | Builtin string

datatype prim =
    PUndefined
  | PNull
  | PBool bool
  | PNum int
  | PStr string

datatype gval =
    Prim prim
  | Obj address string
  | Arr address "gval list"

fun truthy_prim :: "prim \<Rightarrow> bool" where
  "truthy_prim PUndefined = False"
| "truthy_prim PNull = False"
| "truthy_prim (PBool b) = b"
| "truthy_prim (PNum n) = (n \<noteq> 0)"
| "truthy_prim (PStr s) = (s \<noteq> [])"

fun truthy_gval :: "gval \<Rightarrow> bool" where
  "truthy_gval (Prim p) = truthy_prim p"
| "truthy_gval (Obj r s) = True"
| "truthy_gval (Arr r vs) = True"

fun same_value_zero :: "gval \<Rightarrow> gval \<Rightarrow> bool" where
  "same_value_zero (Prim p) (Prim q) = (p = q)"
| "same_value_zero (Obj r s) (Obj r' s') = (r = r')"
| "same_value_zero (Arr r vs) (Arr r' vs') = (r = r')"
| "same_value_zero v w = False"

text \<open>\<^verbatim>\<open>xs.includes(x)\<close>\<close>

primrec array_includes :: "gval list \<Rightarrow> gval \<Rightarrow> bool" where
  "array_includes [] x = False"
| "array_includes (y # ys) x = (same_value_zero y x \<or> array_includes ys x)"

text \<open>
  \<^verbatim>\<open>SHORT_TYPES[t]\<close> (lines 11-15) for a string key: the three own properties, and,
  because the table is an ordinary object, the members it inherits from
  \<^verbatim>\<open>Object.prototype\<close>: functions, and under \<^verbatim>\<open>__proto__\<close> the prototype itself.
\<close>

definition object_prototype_members :: "string list" where
  "object_prototype_members =
     [''constructor'', ''hasOwnProperty'', ''isPrototypeOf'', ''propertyIsEnumerable'',
      ''toLocaleString'', ''toString'', ''valueOf'', ''__proto__'',
      ''__defineGetter__'', ''__defineSetter__'', ''__lookupGetter__'', ''__lookupSetter__'']"

definition member_form :: "string \<Rightarrow> string" where
  "member_form t =
     (if t = ''__proto__'' then ''[object Object]''
      else ''function '' @ (if t = ''constructor'' then ''Object'' else t)
             @ ''() { [native code] }'')"

definition SHORT_TYPES :: "string \<Rightarrow> gval" where
  "SHORT_TYPES t =
     (if t = ''form'' then Prim (PStr ''multipart/form-data'')
      else if t = ''urlencoded'' then Prim (PStr ''application/x-www-form-urlencoded'')
      else if t = ''json'' then Prim (PStr ''application/json'')
      else if t \<in> set object_prototype_members then Obj (Builtin t) (member_form t)
      else Prim PUndefined)"

text \<open>
  \<^verbatim>\<open>[].concat(types).map(t => SHORT_TYPES[t] || t)\<close>: an array argument contributes
  its elements, any other value itself. \<^verbatim>\<open>SHORT_TYPES[t]\<close> looks up the string form
  of \<^verbatim>\<open>t\<close>: a string is its own, an object has the one it is given with, an array
  of one element has the string form of that element, and no other string form
  (\<^verbatim>\<open>undefined\<close>, \<^verbatim>\<open>null\<close>, \<^verbatim>\<open>true\<close>, digits, the empty string of an empty
  array or of an array that holds \<^verbatim>\<open>null\<close>, a list with commas) is a property of
  the table.
\<close>

fun concat_arg :: "gval \<Rightarrow> gval list" where
  "concat_arg (Arr r vs) = vs"
| "concat_arg v = [v]"

fun table_key :: "gval \<Rightarrow> string option" where
  "table_key (Prim (PStr t)) = Some t"
| "table_key (Obj r s) = Some s"
| "table_key (Arr r [v]) = table_key v"
| "table_key v = None"

definition expand_type :: "gval \<Rightarrow> gval" where
  "expand_type t =
     (let short = (case table_key t of Some k \<Rightarrow> SHORT_TYPES k | None \<Rightarrow> Prim PUndefined)
      in if truthy_gval short then short else t)"

definition whitelist :: "gval \<Rightarrow> gval list" where
  "whitelist types = map expand_type (concat_arg types)"

text \<open>
  The handler arguments the gate reads: \<^verbatim>\<open>body\<close> and \<^verbatim>\<open>req.body\<close>, which is
  \<^verbatim>\<open>undefined\<close> or \<^verbatim>\<open>null\<close>, so that reading its property \<^verbatim>\<open>type\<close> throws
  a TypeError, or a value whose property \<^verbatim>\<open>type\<close> has the given value
  (\<^verbatim>\<open>undefined\<close> when the request declares no content type). What the gate does to
  the response and to the chain: \<^verbatim>\<open>res.status(415).end()\<close> sets the status and ends
  the response with no payload; \<^verbatim>\<open>next()\<close> hands over to the next handler.
\<close>

datatype req_body = BodyMissing | BodyType gval

record handler_args =
  body :: gval
  req_body :: req_body

record gate_effect =
  res_status :: "nat option"
  res_ended :: bool
  res_payload :: string
  next_called :: bool

definition untouched :: gate_effect where
  "untouched = \<lparr>res_status = None, res_ended = False, res_payload = [], next_called = False\<rparr>"

definition accept :: "gval \<Rightarrow> handler_args \<Rightarrow> error + gate_effect" where
  "accept types a =
     (let types' = whitelist types in
      if body a \<noteq> Prim (PStr [])
      then (case req_body a of
              BodyMissing \<Rightarrow> Inl (TypeError ''Cannot read property type of undefined'')
            | BodyType t \<Rightarrow>
                if \<not> array_includes types' t
                then Inr (untouched\<lparr>res_status := Some 415, res_ended := True\<rparr>)
                else Inr (untouched\<lparr>next_called := True\<rparr>))
      else Inr (untouched\<lparr>next_called := True\<rparr>))"


section \<open>Configuration\<close>

text \<open>
  Modelled from the spec: \<^verbatim>\<open>confort\<close>, the external package that layers
  configuration sources (it is not part of \<^verbatim>\<open>lib/\<close>). A source is an object or
  the path of a settings file (here: a table of the parsed files that exist); a later
  layer overrides earlier keys at the top level, a nested object being replaced as a
  whole. A missing file or a source of another type makes the collaborator fail.
\<close>

definition confort :: "(string \<rightharpoonup> object) \<Rightarrow> object \<Rightarrow> jsval \<Rightarrow> error + object" where
  "confort fs base src =
     (case src of
        JObj kvs \<Rightarrow> Inr (AList.merge base kvs)
      | JStr path \<Rightarrow>
          (case fs path of
             Some kvs \<Rightarrow> Inr (AList.merge base kvs)
           | None \<Rightarrow> Inl (External ''confort: cannot load the settings file''))
      | _ \<Rightarrow> Inl (External ''confort: unsupported source''))"

section \<open>The application object (class \<^verbatim>\<open>Nodecaf\<close>, lines 60-165)\<close>

datatype lifecycle = Standby | Starting | Running | Stopping

fun state_name :: "lifecycle \<Rightarrow> string" where
  "state_name Standby = ''standby''"
| "state_name Starting = ''starting''"
| "state_name Running = ''running''"
| "state_name Stopping = ''stopping''"

datatype level = Debug | Info

datatype hook = Startup | Shutdown

text \<open>
  What the object does to its collaborators and to the runtime, in order: the calls
  of a log method (all with the fields \<^verbatim>\<open>{ type: 'app' }\<close>), the timers it sets,
  the API it builds, the user hooks it invokes, the listener it binds and closes, the
  layers it hands to \<^verbatim>\<open>confort\<close>, the loggers it makes with
  \<^verbatim>\<open>new Logger(this.conf.log)\<close>.
\<close>

datatype event =
    LogCall level string "jsval list"
  | TimerSet jsval
  | ApiBuilt
  | HookCalled hook
  | Listen jsval bool
  | CloseCalled
  | Configured jsval
  | LoggerMade jsval

record listener =
  port :: jsval
  encrypted :: bool

record app =
  apiSpec :: jsval
  startup :: jsval
  shutdown :: jsval
  serverBuilder :: jsval
  name :: jsval
  version :: jsval
  shouldParseBody :: jsval
  alwaysRebuildAPI :: jsval
  conf :: object
  state :: lifecycle
  cors :: jsval
  log :: jsval
  api :: "jsval option"
  global :: "object option"
  server :: "listener option"
  files :: "string \<rightharpoonup> object"
  events :: "event list"

definition emit :: "event \<Rightarrow> app \<Rightarrow> app" where
  "emit e a = a\<lparr>events := events a @ [e]\<rparr>"

subsection \<open>\<^verbatim>\<open>setup\<close> (lines 79-86)\<close>

text \<open>
  \<^verbatim>\<open>this.conf.log.defaults = { app: this._name }\<close> runs in a class body, that is in
  strict mode: on an object it sets the property, on a truthy primitive it throws a
  TypeError. On a function or an array it sets a property that this model of values
  does not record.
\<close>

definition set_log_defaults :: "jsval \<Rightarrow> jsval \<Rightarrow> error + jsval" where
  "set_log_defaults nm l =
     (case l of
        JObj kvs \<Rightarrow> Inr (JObj (AList.update ''defaults'' (JObj [(''app'', nm)]) kvs))
      | JFun f n \<Rightarrow> Inr l
      | JArr vs \<Rightarrow> Inr l
      | _ \<Rightarrow> Inl (TypeError ''Cannot create property defaults''))"

text \<open>The result is the error thrown, if any, and the object as the call leaves it.\<close>

definition setup_app :: "jsval \<Rightarrow> app \<Rightarrow> error option \<times> app" where
  "setup_app objectOrPath a =
     (let src = js_or objectOrPath (JObj []);
          a0 = emit (Configured src) a in
      case confort (files a0) (conf a0) src of
        Inl e \<Rightarrow> (Some e, a0)
      | Inr c \<Rightarrow>
          (let a1 = a0\<lparr>conf := c, cors := field c ''cors''\<rparr> in
           if truthy (field c ''log'')
           then (case set_log_defaults (name a1) (field c ''log'') of
                   Inl e \<Rightarrow> (Some e, a1)
                 | Inr l \<Rightarrow>
                     (None, emit (LoggerMade l) (a1\<lparr>conf := AList.update ''log'' l c, log := l\<rparr>)))
           else (None, emit (LoggerMade (field c ''log'')) (a1\<lparr>log := field c ''log''\<rparr>))))"

subsection \<open>The logger\<close>

text \<open>
  Modelled from the spec: the Logger collaborator (the external package \<^verbatim>\<open>golog\<close>,
  which is not part of \<^verbatim>\<open>lib/\<close>), made from the settings \<^verbatim>\<open>conf.log\<close>. Each of
  its methods, named by a severity level, ``returns the constructed entry or
  \<^verbatim>\<open>false\<close> if filtered out by configured level/class; writes one structured record
  per call'' that is not filtered out. The level setting is the lowest severity that is
  written; the class of an entry is its field \<^verbatim>\<open>type\<close>, which every call of
  \<^verbatim>\<open>lib/main.js\<close> gives as \<^verbatim>\<open>'app'\<close>, and the class setting is read under the
  same name; a logger made from \<^verbatim>\<open>false\<close> is disabled and writes nothing; a setting
  that is absent filters nothing.
\<close>

fun severity :: "level \<Rightarrow> nat" where
  "severity Debug = 0"
| "severity Info = 1"

definition level_named :: "string \<Rightarrow> nat option" where
  "level_named l =
     (if l = ''debug'' then Some 0
      else if l = ''info'' then Some 1
      else if l = ''warn'' then Some 2
      else if l = ''error'' then Some 3
      else if l = ''fatal'' then Some 4
      else None)"

definition level_admits :: "jsval \<Rightarrow> level \<Rightarrow> bool" where
  "level_admits setting lvl =
     (case setting of
        JStr l \<Rightarrow> (case level_named l of Some n \<Rightarrow> n \<le> severity lvl | None \<Rightarrow> True)
      | _ \<Rightarrow> True)"

definition class_admits :: "jsval \<Rightarrow> string \<Rightarrow> bool" where
  "class_admits setting cls = (case setting of JStr t \<Rightarrow> t = cls | _ \<Rightarrow> True)"

definition admits :: "jsval \<Rightarrow> level \<Rightarrow> bool" where
  "admits settings lvl =
     (case settings of
        JBool b \<Rightarrow> b
      | JObj kvs \<Rightarrow> level_admits (field kvs ''level'') lvl \<and> class_admits (field kvs ''type'') ''app''
      | _ \<Rightarrow> True)"

text \<open>
  The records written along a trace of the object, the first argument being the
  settings of the logger in force where the trace begins: a log call is made to the
  logger of the time, which writes it or filters it out.
\<close>

fun records :: "jsval \<Rightarrow> event list \<Rightarrow> event list" where
  "records lg [] = []"
| "records lg (LogCall lvl m args # es) =
     (if admits lg lvl then LogCall lvl m args # records lg es else records lg es)"
| "records lg (LoggerMade lg' # es) = records lg' es"
| "records lg (e # es) = records lg es"

text \<open>The number of records \<^verbatim>\<open>Reloaded settings\<close> among them.\<close>

definition reload_records :: "jsval \<Rightarrow> event list \<Rightarrow> nat" where
  "reload_records lg es =
     length (filter (\<lambda>e. e = LogCall Debug ''Reloaded settings'' []) (records lg es))"

subsection \<open>The constructor (lines 20-28, 34-58, 62-77)\<close>

text \<open>\<^verbatim>\<open>findPkgInfo\<close>: the name and version of the host package, when its
  \<^verbatim>\<open>package.json\<close> can be required.\<close>

definition findPkgInfo :: "(jsval \<times> jsval) option \<Rightarrow> jsval \<times> jsval" where
  "findPkgInfo pkg = (case pkg of Some nv \<Rightarrow> nv | None \<Rightarrow> (JStr ''Untitled'', JStr ''0.0.0''))"

definition noop :: jsval where
  "noop = JFun ''noop'' True"

definition defaultServerBuilder :: jsval where
  "defaultServerBuilder = JFun ''() => http.createServer()'' False"

record validated =
  v_apiSpec :: jsval
  v_startup :: jsval
  v_shutdown :: jsval
  v_serverBuilder :: jsval
  v_name :: jsval
  v_version :: jsval

text \<open>\<^verbatim>\<open>assert(cond, err)\<close> throws \<^verbatim>\<open>err\<close> when the condition is falsy.\<close>

definition validateOpts :: "(jsval \<times> jsval) option \<Rightarrow> jsval \<Rightarrow> error + validated" where
  "validateOpts pkg opts =
     (if typeof opts \<noteq> ''object'' then Inl (TypeError ''Options argument must be an object'')
      else case get_prop opts ''api'' of Inl e \<Rightarrow> Inl e | Inr o_api \<Rightarrow>
           case get_prop opts ''startup'' of Inl e \<Rightarrow> Inl e | Inr o_startup \<Rightarrow>
           case get_prop opts ''shutdown'' of Inl e \<Rightarrow> Inl e | Inr o_shutdown \<Rightarrow>
           case get_prop opts ''server'' of Inl e \<Rightarrow> Inl e | Inr o_server \<Rightarrow>
           case get_prop opts ''name'' of Inl e \<Rightarrow> Inl e | Inr o_name \<Rightarrow>
           case get_prop opts ''version'' of Inl e \<Rightarrow> Inl e | Inr o_version \<Rightarrow>
           (let v = \<lparr>v_apiSpec = js_or o_api noop,
                     v_startup = js_or o_startup noop,
                     v_shutdown = js_or o_shutdown noop,
                     v_serverBuilder = js_or o_server defaultServerBuilder,
                     v_name = js_or o_name (fst (findPkgInfo pkg)),
                     v_version = js_or o_version (snd (findPkgInfo pkg))\<rparr> in
            if typeof (v_apiSpec v) \<noteq> ''function''
              then Inl (TypeError ''API builder must be a function'')
            else if typeof (v_startup v) \<noteq> ''function''
              then Inl (TypeError ''Startup handler must be a function'')
            else if typeof (v_shutdown v) \<noteq> ''function''
              then Inl (TypeError ''Shutdown handler must be a function'')
            else if typeof (v_serverBuilder v) \<noteq> ''function''
              then Inl (TypeError ''Server builder must be a function'')
            else Inr v))"

text \<open>
  \<^verbatim>\<open>new Nodecaf(opts)\<close>, with the default parameter \<^verbatim>\<open>opts = {}\<close>. The class
  \<^verbatim>\<open>API\<close> of \<^verbatim>\<open>./api\<close> is a collaborator that is not among the sources:
  building it is recorded and kept as the builder it was made from, and its
  constructor is taken to return.
\<close>

definition constructor :: "(string \<rightharpoonup> object) \<Rightarrow> (jsval \<times> jsval) option \<Rightarrow> jsval \<Rightarrow> error + app" where
  "constructor fs pkg opts0 =
     (let opts = (if opts0 = JUndefined then JObj [] else opts0) in
      case validateOpts pkg opts of
        Inl e \<Rightarrow> Inl e
      | Inr v \<Rightarrow>
          (let spb = (case get_prop opts ''shouldParseBody'' of Inr x \<Rightarrow> x | Inl _ \<Rightarrow> JUndefined);
               arb = (case get_prop opts ''alwaysRebuildAPI'' of Inr x \<Rightarrow> x | Inl _ \<Rightarrow> JUndefined);
               cnf = (case get_prop opts ''conf'' of Inr x \<Rightarrow> x | Inl _ \<Rightarrow> JUndefined);
               a = \<lparr>apiSpec = v_apiSpec v, startup = v_startup v, shutdown = v_shutdown v,
                    serverBuilder = v_serverBuilder v, name = v_name v, version = v_version v,
                    shouldParseBody = js_or spb (JBool (typeof spb = ''undefined'')),
                    alwaysRebuildAPI = js_or arb (JBool False),
                    conf = [], state = Standby, cors = JUndefined, log = JUndefined,
                    api = None, global = None, server = None, files = fs, events = []\<rparr> in
           case setup_app cnf a of
             (Some e, _) \<Rightarrow> Inl e
           | (None, a1) \<Rightarrow>
               Inr (if \<not> truthy (alwaysRebuildAPI a1)
                    then emit ApiBuilt (a1\<lparr>api := Some (apiSpec a1)\<rparr>)
                    else a1)))"


subsection \<open>The segments of \<^verbatim>\<open>start\<close> (lines 97-124)\<close>

text \<open>
  An \<^verbatim>\<open>async\<close> method runs without interruption from one \<^verbatim>\<open>await\<close> to the
  next. Each segment below is the code between two of them; it returns the point where
  the invocation now waits, or its settlement, and the object as the segment leaves it.
\<close>

datatype pc =
    AwaitDelay
  | AwaitStartup
  | AwaitServer
  | AwaitShutdown
  | AwaitClosed
  | AwaitTimer
  | AwaitRetried nat
  | AwaitStop nat
  | AwaitStart nat
  | Resolved jsval
  | Rejected error

text \<open>
  \<^verbatim>\<open>retryShortly(fn)\<close> (lines 30-32) sets a timer of 1000 ms; the invocation that
  awaits it waits at \<^const>\<open>AwaitTimer\<close>.
\<close>

definition retryShortly :: "app \<Rightarrow> pc \<times> app" where
  "retryShortly a = (AwaitTimer, emit (TimerSet (JNum 1000)) a)"

text \<open>Lines 99-106: the two guards, then the transition and the startup delay.\<close>

definition start_enter :: "app \<Rightarrow> pc \<times> app" where
  "start_enter a =
     (if state a = Running \<or> state a = Starting then (Resolved (JStr (state_name (state a))), a)
      else if state a = Stopping then retryShortly a
      else (AwaitDelay, emit (TimerSet (field (conf a) ''delay'')) (a\<lparr>state := Starting\<rparr>)))"

text \<open>
  Calling a hook: a value that is not a function cannot be called (the constructor
  admits functions only). A hook that throws at once, instead of returning a promise
  that rejects, is observed where its promise is awaited.
\<close>

definition call_hook :: "hook \<Rightarrow> jsval \<Rightarrow> pc \<Rightarrow> app \<Rightarrow> pc \<times> app" where
  "call_hook h f waiting a =
     (if typeof f = ''function'' then (waiting, emit (HookCalled h) a)
      else (Rejected (TypeError ''the hook is not a function''), a))"

text \<open>Lines 108-116, after the delay.\<close>

definition start_after_delay :: "app \<Rightarrow> pc \<times> app" where
  "start_after_delay a =
     (let a1 = a\<lparr>global := Some []\<rparr>;
          a2 = (if truthy (alwaysRebuildAPI a1)
                then emit ApiBuilt (a1\<lparr>api := Some (apiSpec a1)\<rparr>) else a1) in
      case get_prop (startup a2) ''noop'' of
        Inl e \<Rightarrow> (Rejected e, a2)
      | Inr n \<Rightarrow>
          (let a3 = (if \<not> truthy n
                     then emit (LogCall Debug ''Starting up %s...'' [name a2]) a2 else a2) in
           call_hook Startup (startup a3) AwaitStartup a3))"

text \<open>
  Modelled from the spec: \<^verbatim>\<open>startServer\<close> of \<^verbatim>\<open>./http\<close>, which is not among
  the sources. It binds a transport listener on the configured port, encrypted when
  key and certificate material is configured, waits for it to report ready and logs a
  startup event (with the message the second class of the file logs, lines 314-315).
\<close>

definition startServer_listen :: "app \<Rightarrow> app" where
  "startServer_listen a =
     (let l = \<lparr>port = field (conf a) ''port'', encrypted = truthy (field (conf a) ''ssl'')\<rparr> in
      emit (Listen (port l) (encrypted l)) (a\<lparr>server := Some l\<rparr>))"

definition startServer_ready :: "app \<Rightarrow> app" where
  "startServer_ready a =
     emit (LogCall Info ''%s v%s is ready on port %s''
             [name a, version a, field (conf a) ''port'']) a"

text \<open>Lines 116-123, once the startup hook has settled (with an error or without).\<close>

definition start_after_startup :: "error option \<Rightarrow> app \<Rightarrow> pc \<times> app" where
  "start_after_startup failure a =
     (case failure of
        Some e \<Rightarrow> (Rejected e, a)
      | None \<Rightarrow>
          if truthy (field (conf a) ''port'') then (AwaitServer, startServer_listen a)
          else (Resolved (JStr ''running''),
                (emit (LogCall Info ''%s v%s has started'' [name a, version a]) a)
                  \<lparr>state := Running\<rparr>))"

text \<open>Lines 119-123, once \<^verbatim>\<open>startServer\<close> has settled.\<close>

definition start_after_server :: "error option \<Rightarrow> app \<Rightarrow> pc \<times> app" where
  "start_after_server failure a =
     (case failure of
        Some e \<Rightarrow> (Rejected e, a)
      | None \<Rightarrow> (Resolved (JStr ''running''), (startServer_ready a)\<lparr>state := Running\<rparr>))"

subsection \<open>The segments of \<^verbatim>\<open>stop\<close> (lines 126-146)\<close>

text \<open>Lines 127-138: the two guards, the transition, the close of the listener if
  there is one, the call of the shutdown hook.\<close>

definition stop_enter :: "app \<Rightarrow> pc \<times> app" where
  "stop_enter a =
     (if state a = Stopping \<or> state a = Standby then (Resolved (JStr (state_name (state a))), a)
      else if state a = Starting then retryShortly a
      else (let a1 = a\<lparr>state := Stopping\<rparr>;
                a2 = (if server a1 \<noteq> None then emit CloseCalled a1 else a1) in
            call_hook Shutdown (shutdown a2) AwaitShutdown a2))"

text \<open>Lines 138-139, once the shutdown hook has settled.\<close>

definition stop_after_shutdown :: "error option \<Rightarrow> app \<Rightarrow> pc \<times> app" where
  "stop_after_shutdown failure a =
     (case failure of Some e \<Rightarrow> (Rejected e, a) | None \<Rightarrow> (AwaitClosed, a))"

text \<open>Lines 139-145, once \<^verbatim>\<open>closedPromise\<close> (or \<^verbatim>\<open>undefined\<close>) has been awaited;
  an error given to the callback of \<^verbatim>\<open>close\<close> resolves that promise too.\<close>

definition stop_after_closed :: "app \<Rightarrow> pc \<times> app" where
  "stop_after_closed a =
     (Resolved (JStr ''standby''),
      (emit (LogCall Info ''Stopped'' []) (a\<lparr>global := None\<rparr>))\<lparr>state := Standby\<rparr>)"

subsection \<open>\<^verbatim>\<open>restart\<close> (lines 156-163)\<close>

text \<open>Lines 158-161, between the two awaits.\<close>

definition restart_reload :: "jsval \<Rightarrow> app \<Rightarrow> error option \<times> app" where
  "restart_reload c a =
     (if typeof c = ''object''
      then setup_app c (emit (LogCall Debug ''Reloaded settings'' []) a)
      else (None, a))"

section \<open>Invocations in flight\<close>

text \<open>
  The runtime interleaves the segments of the invocations in flight. An invocation is
  the method called and the point where it waits; the system is the object and all
  invocations made so far, an invocation being named by its position.
\<close>

datatype operation = Start | Stop | Restart jsval

record task =
  oper :: operation
  at :: pc

record system =
  self :: app
  tasks :: "task list"

text \<open>Calling \<^verbatim>\<open>this.start()\<close> or \<^verbatim>\<open>this.stop()\<close> runs the first segment at once.\<close>

definition invoke_start :: "system \<Rightarrow> system" where
  "invoke_start s =
     (let (p, a) = start_enter (self s) in
      \<lparr>self = a, tasks = tasks s @ [\<lparr>oper = Start, at = p\<rparr>]\<rparr>)"

definition invoke_stop :: "system \<Rightarrow> system" where
  "invoke_stop s =
     (let (p, a) = stop_enter (self s) in
      \<lparr>self = a, tasks = tasks s @ [\<lparr>oper = Stop, at = p\<rparr>]\<rparr>)"

text \<open>\<^verbatim>\<open>restart(conf)\<close> calls \<^verbatim>\<open>this.stop()\<close> and awaits it (line 157).\<close>

definition invoke_restart :: "jsval \<Rightarrow> system \<Rightarrow> system" where
  "invoke_restart c s =
     (let n = length (tasks s) in
      invoke_stop (s\<lparr>tasks := tasks s @ [\<lparr>oper = Restart c, at = AwaitStop (Suc n)\<rparr>]\<rparr>))"

fun invoke :: "operation \<Rightarrow> system \<Rightarrow> system" where
  "invoke Start s = invoke_start s"
| "invoke Stop s = invoke_stop s"
| "invoke (Restart c) s = invoke_restart c s"

definition settle :: "nat \<Rightarrow> pc \<times> app \<Rightarrow> system \<Rightarrow> system" where
  "settle i r s = \<lparr>self = snd r, tasks = (tasks s)[i := (tasks s ! i)\<lparr>at := fst r\<rparr>]\<rparr>"

definition move :: "nat \<Rightarrow> pc \<Rightarrow> system \<Rightarrow> system" where
  "move i p s = s\<lparr>tasks := (tasks s)[i := (tasks s ! i)\<lparr>at := p\<rparr>]\<rparr>"

text \<open>
  The timer of \<^verbatim>\<open>retryShortly\<close> fires: \<^verbatim>\<open>fn()\<close> calls the method again, and
  \<^verbatim>\<open>.then(done)\<close> waits for that inner invocation.
\<close>

definition retry_fire :: "nat \<Rightarrow> system \<Rightarrow> system" where
  "retry_fire i s =
     (let n = length (tasks s) in
      case oper (tasks s ! i) of
        Start \<Rightarrow> move i (AwaitRetried n) (invoke_start s)
      | Stop \<Rightarrow> move i (AwaitRetried n) (invoke_stop s)
      | Restart c \<Rightarrow> s)"

text \<open>
  \<^verbatim>\<open>fn().then(done)\<close>: \<^verbatim>\<open>done\<close> is called with the value of the inner invocation
  when it resolves. Nothing is attached for its rejection, so the outer promise then
  stays pending.
\<close>

definition retry_done :: "nat \<Rightarrow> nat \<Rightarrow> system \<Rightarrow> system" where
  "retry_done i k s =
     (if k < length (tasks s)
      then (case at (tasks s ! k) of Resolved v \<Rightarrow> move i (Resolved v) s | _ \<Rightarrow> s)
      else s)"

text \<open>Line 157 resumes when \<^verbatim>\<open>stop()\<close> has settled; lines 158-162 follow.\<close>

definition restart_after_stop :: "nat \<Rightarrow> nat \<Rightarrow> system \<Rightarrow> system" where
  "restart_after_stop i k s =
     (if k < length (tasks s)
      then (case at (tasks s ! k) of
              Resolved v \<Rightarrow>
                (case oper (tasks s ! i) of
                   Restart c \<Rightarrow>
                     (case restart_reload c (self s) of
                        (Some e, a) \<Rightarrow> move i (Rejected e) (s\<lparr>self := a\<rparr>)
                      | (None, a) \<Rightarrow>
                          move i (AwaitStart (length (tasks s))) (invoke_start (s\<lparr>self := a\<rparr>)))
                 | _ \<Rightarrow> s)
            | Rejected e \<Rightarrow> move i (Rejected e) s
            | _ \<Rightarrow> s)
      else s)"

text \<open>Line 162 resumes when \<^verbatim>\<open>start()\<close> has settled; the method returns nothing.\<close>

definition restart_after_start :: "nat \<Rightarrow> nat \<Rightarrow> system \<Rightarrow> system" where
  "restart_after_start i k s =
     (if k < length (tasks s)
      then (case at (tasks s ! k) of
              Resolved v \<Rightarrow> move i (Resolved JUndefined) s
            | Rejected e \<Rightarrow> move i (Rejected e) s
            | _ \<Rightarrow> s)
      else s)"

text \<open>
  What the runtime may do next: an outside caller calls a method, or the wait of
  invocation \<open>i\<close> ends, with a failure or without (timers and the close of the
  listener do not fail). Resuming an invocation that is settled, that does not exist or
  whose awaited invocation is not settled changes nothing.
\<close>

datatype sched = Call operation | Resume nat "error option"

definition resume :: "nat \<Rightarrow> error option \<Rightarrow> system \<Rightarrow> system" where
  "resume i failure s =
     (if i < length (tasks s)
      then (case at (tasks s ! i) of
              AwaitDelay \<Rightarrow> settle i (start_after_delay (self s)) s
            | AwaitStartup \<Rightarrow> settle i (start_after_startup failure (self s)) s
            | AwaitServer \<Rightarrow> settle i (start_after_server failure (self s)) s
            | AwaitShutdown \<Rightarrow> settle i (stop_after_shutdown failure (self s)) s
            | AwaitClosed \<Rightarrow> settle i (stop_after_closed (self s)) s
            | AwaitTimer \<Rightarrow> retry_fire i s
            | AwaitRetried k \<Rightarrow> retry_done i k s
            | AwaitStop k \<Rightarrow> restart_after_stop i k s
            | AwaitStart k \<Rightarrow> restart_after_start i k s
            | Resolved v \<Rightarrow> s
            | Rejected e \<Rightarrow> s)
      else s)"

fun step :: "sched \<Rightarrow> system \<Rightarrow> system" where
  "step (Call f) s = invoke f s"
| "step (Resume i failure) s = resume i failure s"

fun run :: "sched list \<Rightarrow> system \<Rightarrow> system" where
  "run [] s = s"
| "run (x # xs) s = run xs (step x s)"

text \<open>The invocations that are inside the transition work of \<^verbatim>\<open>start\<close> (after
  line 104) or of \<^verbatim>\<open>stop\<close> (after line 133), and their number.\<close>

fun starting_work :: "pc \<Rightarrow> bool" where
  "starting_work AwaitDelay = True"
| "starting_work AwaitStartup = True"
| "starting_work AwaitServer = True"
| "starting_work p = False"

fun stopping_work :: "pc \<Rightarrow> bool" where
  "stopping_work AwaitShutdown = True"
| "stopping_work AwaitClosed = True"
| "stopping_work p = False"

definition in_transition :: "task \<Rightarrow> bool" where
  "in_transition t = (starting_work (at t) \<or> stopping_work (at t))"

definition transitioning :: "system \<Rightarrow> nat" where
  "transitioning s = length (filter in_transition (tasks s))"

text \<open>The state agrees with the invocations in flight: at most one is inside its
  transition work, and the state is the one it has set.\<close>

definition consistent :: "system \<Rightarrow> bool" where
  "consistent s =
     (transitioning s \<le> 1
      \<and> (\<forall>t \<in> set (tasks s).
            (starting_work (at t) \<longrightarrow> state (self s) = Starting)
            \<and> (stopping_work (at t) \<longrightarrow> state (self s) = Stopping)))"

fun is_listen :: "event \<Rightarrow> bool" where
  "is_listen (Listen p e) = True"
| "is_listen x = False"

definition binds :: "app \<Rightarrow> nat" where
  "binds a = length (filter is_listen (events a))"

text \<open>The number of log calls \<^verbatim>\<open>Reloaded settings\<close> (line 159) so far.\<close>

definition reloaded :: "app \<Rightarrow> nat" where
  "reloaded a = length (filter (\<lambda>e. e = LogCall Debug ''Reloaded settings'' []) (events a))"


text \<open>
  The schedules in which no caller calls \<^verbatim>\<open>stop\<close> or \<^verbatim>\<open>restart\<close>, and what
  every such schedule keeps true of a server that had bound \<open>b\<close> listeners and had the
  configuration \<open>c\<close> when it was at rest: no invocation is inside \<^verbatim>\<open>stop\<close> or
  \<^verbatim>\<open>restart\<close>, and the number of listeners bound since is none before
  \<^verbatim>\<open>startServer\<close> is called and one after.
\<close>

fun settled :: "pc \<Rightarrow> bool" where
  "settled (Resolved v) = True"
| "settled (Rejected e) = True"
| "settled p = False"

fun start_or_resume :: "sched \<Rightarrow> bool" where
  "start_or_resume (Call Start) = True"
| "start_or_resume (Call f) = False"
| "start_or_resume (Resume i f) = True"

fun start_pc :: "pc \<Rightarrow> bool" where
  "start_pc AwaitShutdown = False"
| "start_pc AwaitClosed = False"
| "start_pc (AwaitStop k) = False"
| "start_pc (AwaitStart k) = False"
| "start_pc p = True"

definition bound_once :: "nat \<Rightarrow> object \<Rightarrow> system \<Rightarrow> bool" where
  "bound_once b c s =
     ((\<forall>t \<in> set (tasks s).
          start_pc (at t) \<and> (at t = AwaitTimer \<longrightarrow> oper t = Start)
          \<and> (at t = AwaitDelay \<or> at t = AwaitStartup \<longrightarrow> binds (self s) = b)
          \<and> (at t = AwaitServer \<longrightarrow> binds (self s) = Suc b \<and> truthy (field c ''port'')))
      \<and> conf (self s) = c
      \<and> state (self s) \<noteq> Stopping
      \<and> (state (self s) = Standby \<longrightarrow> binds (self s) = b)
      \<and> (state (self s) = Running \<longrightarrow>
            binds (self s) = (if truthy (field c ''port'') then Suc b else b))
      \<and> b \<le> binds (self s) \<and> binds (self s) \<le> Suc b)"

section \<open>The second class of the file (lines 199-354)\<close>

text \<open>
  The file holds a second definition of the class, whose \<^verbatim>\<open>setup\<close> (lines 233-256)
  loads the key and the certificate and gives the port a default, and whose
  \<^verbatim>\<open>start\<close> (lines 283-320) always makes a listener. Of its object the model keeps
  the configuration, the loaded key and certificate, the runs of the API builder, the
  name and version, the startup handler, \<^verbatim>\<open>running\<close> (\<^verbatim>\<open>false\<close> or a promise),
  \<^verbatim>\<open>stopped\<close> (\<^verbatim>\<open>false\<close> or a promise, settled or not), the listener, and the
  trace of what it does to its collaborators; the logger it creates (\<^verbatim>\<open>./logger\<close>)
  is left out, its calls being recorded, and \<^verbatim>\<open>Confort\<close> layers as \<^verbatim>\<open>confort\<close>
  does. \<^verbatim>\<open>fs.readFileSync\<close> reads from a table of the files that exist; a path is
  a string.
\<close>

datatype promise = Settled | Pending

record nodecaf =
  n_conf :: object
  n_ssl :: "(string \<times> string) option"
  n_alwaysRebuildAPI :: jsval
  n_api_runs :: nat
  n_name :: jsval
  n_version :: jsval
  n_startup :: jsval
  n_running :: bool
  n_stopped :: "promise option"
  n_server :: "listener option"
  n_events :: "event list"

definition n_emit :: "event \<Rightarrow> nodecaf \<Rightarrow> nodecaf" where
  "n_emit e n = n\<lparr>n_events := n_events n @ [e]\<rparr>"

definition readFileSync :: "(string \<rightharpoonup> string) \<Rightarrow> jsval \<Rightarrow> error + string" where
  "readFileSync disk p =
     (case p of
        JStr path \<Rightarrow>
          (case disk path of Some d \<Rightarrow> Inr d | None \<Rightarrow> Inl (External ''ENOENT''))
      | _ \<Rightarrow> Inl (TypeError ''The path argument must be a string''))"

text \<open>Lines 247-250.\<close>

definition load_ssl :: "(string \<rightharpoonup> string) \<Rightarrow> jsval \<Rightarrow> error + (string \<times> string) option" where
  "load_ssl disk sslc =
     (if truthy sslc
      then (case get_prop sslc ''key'' of Inl e \<Rightarrow> Inl e | Inr kp \<Rightarrow>
            case readFileSync disk kp of Inl e \<Rightarrow> Inl e | Inr k \<Rightarrow>
            case get_prop sslc ''cert'' of Inl e \<Rightarrow> Inl e | Inr cp \<Rightarrow>
            case readFileSync disk cp of Inl e \<Rightarrow> Inl e | Inr c \<Rightarrow> Inr (Some (k, c)))
      else Inr None)"

text \<open>\<^verbatim>\<open>setup\<close> (lines 233-256).\<close>

definition setup_nodecaf ::
  "(string \<rightharpoonup> object) \<Rightarrow> (string \<rightharpoonup> string) \<Rightarrow> jsval \<Rightarrow> nodecaf \<Rightarrow> error + nodecaf" where
  "setup_nodecaf fs disk objectOrPath n =
     (case confort fs (n_conf n) (js_or objectOrPath (JObj [])) of
        Inl e \<Rightarrow> Inl e
      | Inr c \<Rightarrow>
          (case load_ssl disk (field c ''ssl'') of
             Inl e \<Rightarrow> Inl e
           | Inr ssl \<Rightarrow>
               Inr (n\<lparr>n_conf := AList.update ''port''
                                  (js_or (field c ''port'')
                                     (JNum (if ssl \<noteq> None then 443 else 80))) c,
                      n_ssl := ssl,
                      n_api_runs := (if truthy (n_alwaysRebuildAPI n)
                                     then Suc (n_api_runs n) else n_api_runs n)\<rparr>)))"

text \<open>
  The constructor (lines 203-231): the handlers are \<^verbatim>\<open>noop\<close>, \<^verbatim>\<open>running\<close> is
  \<^verbatim>\<open>false\<close>, \<^verbatim>\<open>stopped\<close> is \<^verbatim>\<open>Promise.resolve(true)\<close>, \<^verbatim>\<open>alwaysRebuildAPI\<close>
  is not set, and \<^verbatim>\<open>setup(conf)\<close> is called.
\<close>

definition constructor_nodecaf ::
  "(string \<rightharpoonup> object) \<Rightarrow> (string \<rightharpoonup> string) \<Rightarrow> (jsval \<times> jsval) option \<Rightarrow> jsval
     \<Rightarrow> error + nodecaf" where
  "constructor_nodecaf fs disk pkg cnf =
     setup_nodecaf fs disk cnf
       \<lparr>n_conf = [], n_ssl = None, n_alwaysRebuildAPI = JUndefined, n_api_runs = 0,
        n_name = fst (findPkgInfo pkg), n_version = snd (findPkgInfo pkg),
        n_startup = noop, n_running = False, n_stopped = Some Settled,
        n_server = None, n_events = []\<rparr>"

text \<open>
  \<^verbatim>\<open>start()\<close> (lines 283-320), as a run of one invocation with no other invocation
  in flight. Its outcome: \<^verbatim>\<open>false\<close> is returned, the object itself is returned, the
  promise is rejected, or it never settles. The waits that change nothing of the object
  and always end (for a settled \<^verbatim>\<open>stopped\<close>, line 287; for the timer when
  \<^verbatim>\<open>conf.delay > 0\<close>, lines 292-293) leave no trace; a \<^verbatim>\<open>stopped\<close> that is
  pending is never settled in such a run. What the surroundings decide is given: whether
  the startup handler fails, and whether \<^verbatim>\<open>listen\<close> calls back, throws at the call,
  or does neither (the port is taken). The listener is encrypted when
  \<^verbatim>\<open>https.createServer\<close> made it, that is when key and certificate are loaded.
  The log calls of this class carry the fields \<^verbatim>\<open>{ type: 'server' }\<close>.
\<close>

datatype started = ReturnedFalse | ReturnedThis | StartRejected error | StartPending

datatype listening = Listens | ListenThrows error | ListenSilent

definition start_nodecaf :: "error option \<Rightarrow> listening \<Rightarrow> nodecaf \<Rightarrow> started \<times> nodecaf" where
  "start_nodecaf hook bound n =
     (if n_running n then (ReturnedFalse, n)
      else if n_stopped n = Some Pending then (StartPending, n)
      else
        (let n1 = n\<lparr>n_running := True\<rparr>;
             n2 = (if truthy (n_alwaysRebuildAPI n1)
                   then n1\<lparr>n_api_runs := Suc (n_api_runs n1)\<rparr> else n1) in
         case get_prop (n_startup n2) ''noop'' of
           Inl e \<Rightarrow> (StartRejected e, n2)
         | Inr np \<Rightarrow>
             (let n3 = (if \<not> truthy np
                        then n_emit (LogCall Debug ''Starting up %s...'' [n_name n2]) n2
                        else n2) in
              if typeof (n_startup n3) \<noteq> ''function''
              then (StartRejected (TypeError ''the hook is not a function''), n3)
              else
                (let n4 = n_emit (HookCalled Startup) n3 in
                 case hook of
                   Some e \<Rightarrow> (StartRejected e, n4)
                 | None \<Rightarrow>
                     (let l = \<lparr>port = field (n_conf n4) ''port'', encrypted = (n_ssl n4 \<noteq> None)\<rparr>;
                          n5 = n_emit (Listen (port l) (encrypted l)) (n4\<lparr>n_server := Some l\<rparr>) in
                      case bound of
                        ListenThrows e \<Rightarrow> (StartRejected e, n5)
                      | ListenSilent \<Rightarrow> (StartPending, n5)
                      | Listens \<Rightarrow>
                          (ReturnedThis,
                           (n_emit (LogCall Info ''%s v%s is ready on port %s''
                                      [n_name n5, n_version n5, field (n_conf n5) ''port'']) n5)
                             \<lparr>n_stopped := None\<rparr>))))))"

section \<open>The content-type gate\<close>

lemmas gate_defs =
  accept_def whitelist_def expand_type_def SHORT_TYPES_def object_prototype_members_def
  member_form_def untouched_def

text \<open>
  A listed short name admits its type. An object in the whitelist admits the request
  whose declared type is that very object and no other object, however alike. A
  request with a body and without \<^verbatim>\<open>req.body\<close> makes the gate throw.
\<close>

lemma accept_admits_listed:
  "accept (Arr (Heap 0) [Prim (PStr ''json''), Prim (PStr ''text/html'')])
      \<lparr>body = Prim (PStr ''{}''), req_body = BodyType (Prim (PStr ''application/json''))\<rparr> =
     Inr \<lparr>res_status = None, res_ended = False, res_payload = [], next_called = True\<rparr>"
  by (simp add: gate_defs)

lemma accept_object_identity:
  "accept (Arr (Heap 0) [Obj (Heap 1) ''[object Object]''])
      \<lparr>body = Prim (PStr ''x''), req_body = BodyType (Obj (Heap 1) ''[object Object]'')\<rparr> =
     Inr \<lparr>res_status = None, res_ended = False, res_payload = [], next_called = True\<rparr>"
  "accept (Arr (Heap 0) [Obj (Heap 1) ''[object Object]''])
      \<lparr>body = Prim (PStr ''x''), req_body = BodyType (Obj (Heap 2) ''[object Object]'')\<rparr> =
     Inr \<lparr>res_status = Some 415, res_ended = True, res_payload = [], next_called = False\<rparr>"
  by (simp_all add: gate_defs)

lemma accept_without_request_body:
  "accept (Arr (Heap 0) [Prim (PStr ''json'')])
      \<lparr>body = Prim (PStr ''x''), req_body = BodyMissing\<rparr> =
     Inl (TypeError ''Cannot read property type of undefined'')"
  by (simp add: gate_defs)

text \<open>
  Claim C1 asks for status 400 and a body \<^verbatim>\<open>Unsupported content-type {value}\<close>
  when a request with a non-empty body declares a type outside the whitelist, without
  the next handler being called. With the whitelist \<^verbatim>\<open>['json', 'text/html']\<close>, the
  body \<^verbatim>\<open><foo/>\<close> and the declared type \<^verbatim>\<open>text/xml\<close>, the gate does not call
  the next handler, but it answers 415, not 400, and sends no payload (line 92).
\<close>

theorem accept_unlisted_answer:
  "accept (Arr (Heap 0) [Prim (PStr ''json''), Prim (PStr ''text/html'')])
      \<lparr>body = Prim (PStr ''<foo/>''), req_body = BodyType (Prim (PStr ''text/xml''))\<rparr> =
     Inr \<lparr>res_status = Some 415, res_ended = True, res_payload = [], next_called = False\<rparr>"
  by (simp add: gate_defs)

text \<open>
  Claim C8: for every request whose body is the empty string, the gate made by
  \<^verbatim>\<open>accept(types)\<close> calls the next handler and leaves the response alone, whatever the
  whitelist and whatever content type the request declares.
\<close>

theorem accept_admits_empty_body:
  assumes "body a = Prim (PStr [])"
  shows "accept types a =
           Inr \<lparr>res_status = None, res_ended = False, res_payload = [], next_called = True\<rparr>"
  using assms by (simp add: accept_def untouched_def)

text \<open>An empty body with an empty whitelist and a declared type.\<close>

theorem accept_admits_empty_body_witness:
  "accept (Arr (Heap 0) [])
      \<lparr>body = Prim (PStr []), req_body = BodyType (Prim (PStr ''text/xml''))\<rparr> =
     Inr \<lparr>res_status = None, res_ended = False, res_payload = [], next_called = True\<rparr>"
  by (rule accept_admits_empty_body) simp

section \<open>The constructor\<close>

lemma validateOpts_not_object:
  assumes "typeof opts \<noteq> ''object''"
  shows "validateOpts pkg opts = Inl (TypeError ''Options argument must be an object'')"
  using assms by (simp add: validateOpts_def)

lemma validateOpts_null: "\<exists>m. validateOpts pkg JNull = Inl (TypeError m)"
  by (simp add: validateOpts_def)

lemma validateOpts_bad_option:
  assumes "k \<in> {''api'', ''startup'', ''shutdown'', ''server''}"
    and "truthy (field kvs k)" and "typeof (field kvs k) \<noteq> ''function''"
  shows "\<exists>m. validateOpts pkg (JObj kvs) = Inl (TypeError m)"
proof -
  have "k = ''api'' \<or> k = ''startup'' \<or> k = ''shutdown'' \<or> k = ''server''"
    using assms(1) by simp
  then show ?thesis
    using assms(2,3) by (elim disjE) (simp_all add: validateOpts_def js_or_def Let_def)
qed

lemma validateOpts_defaults:
  assumes "\<forall>k \<in> {''api'', ''startup'', ''shutdown'', ''server''}.
             \<not> truthy (field kvs k) \<or> typeof (field kvs k) = ''function''"
  shows "validateOpts pkg (JObj kvs) =
           Inr \<lparr>v_apiSpec = js_or (field kvs ''api'') noop,
                v_startup = js_or (field kvs ''startup'') noop,
                v_shutdown = js_or (field kvs ''shutdown'') noop,
                v_serverBuilder = js_or (field kvs ''server'') defaultServerBuilder,
                v_name = js_or (field kvs ''name'') (fst (findPkgInfo pkg)),
                v_version = js_or (field kvs ''version'') (snd (findPkgInfo pkg))\<rparr>"
  using assms
  by (simp add: validateOpts_def Let_def) (simp add: js_or_def noop_def defaultServerBuilder_def)

lemma constructor_error:
  "validateOpts pkg (if opts = JUndefined then JObj [] else opts) = Inl e \<Longrightarrow> constructor fs pkg opts = Inl e"
  by (simp add: constructor_def)

text \<open>
  Claim C9, as stated, makes the constructor throw whenever a supplied \<^verbatim>\<open>api\<close>,
  \<^verbatim>\<open>startup\<close>, \<^verbatim>\<open>shutdown\<close> or \<^verbatim>\<open>server\<close> option is not a function. The
  options \<^verbatim>\<open>{ api: 0 }\<close> supply a value that is not a function, and the constructor
  returns an object, with \<^verbatim>\<open>noop\<close> as its API builder: \<^verbatim>\<open>opts.api || noop\<close>
  (line 38) replaces a falsy value before it is checked.
\<close>

theorem constructor_falsy_option_counterexample:
  "field [(''api'', JNum 0)] ''api'' = JNum 0
   \<and> typeof (JNum 0) \<noteq> ''function''
   \<and> \<not> isl (constructor Map.empty None (JObj [(''api'', JNum 0)]))
   \<and> apiSpec (projr (constructor Map.empty None (JObj [(''api'', JNum 0)]))) = noop"
  by (simp add: constructor_def validateOpts_def setup_app_def confort_def js_or_def field_def
      emit_def Let_def noop_def defaultServerBuilder_def findPkgInfo_def)

text \<open>
  Claim C9, amended: the constructor throws a TypeError whenever its argument is given
  and is neither an object nor an array (\<^verbatim>\<open>null\<close> included), and whenever one of
  the options \<^verbatim>\<open>api\<close>, \<^verbatim>\<open>startup\<close>, \<^verbatim>\<open>shutdown\<close>, \<^verbatim>\<open>server\<close> is truthy and
  not a function; an option that is falsy or a function passes the validation, a falsy
  one being replaced by its default; with no options the constructor succeeds, with
  \<^verbatim>\<open>noop\<close> as API builder and as both hooks and with the default server builder.
\<close>

theorem constructor_validates:
  "(opts \<noteq> JUndefined \<and> (\<forall>kvs. opts \<noteq> JObj kvs) \<and> (\<forall>vs. opts \<noteq> JArr vs)
      \<longrightarrow> (\<exists>m. constructor fs pkg opts = Inl (TypeError m)))
   \<and> (k \<in> {''api'', ''startup'', ''shutdown'', ''server''}
        \<and> truthy (field kvs k) \<and> typeof (field kvs k) \<noteq> ''function''
      \<longrightarrow> (\<exists>m. constructor fs pkg (JObj kvs) = Inl (TypeError m)))
   \<and> ((\<forall>k \<in> {''api'', ''startup'', ''shutdown'', ''server''}.
          \<not> truthy (field kvs k) \<or> typeof (field kvs k) = ''function'')
      \<longrightarrow> (\<exists>v. validateOpts pkg (JObj kvs) = Inr v
               \<and> v_apiSpec v = js_or (field kvs ''api'') noop
               \<and> v_startup v = js_or (field kvs ''startup'') noop
               \<and> v_shutdown v = js_or (field kvs ''shutdown'') noop
               \<and> v_serverBuilder v = js_or (field kvs ''server'') defaultServerBuilder))
   \<and> (\<exists>a. constructor fs pkg JUndefined = Inr a
          \<and> apiSpec a = noop \<and> startup a = noop \<and> shutdown a = noop
          \<and> serverBuilder a = defaultServerBuilder \<and> state a = Standby)"
proof (intro conjI impI)
  assume h: "opts \<noteq> JUndefined \<and> (\<forall>kvs. opts \<noteq> JObj kvs) \<and> (\<forall>vs. opts \<noteq> JArr vs)"
  show "\<exists>m. constructor fs pkg opts = Inl (TypeError m)"
  proof (cases "opts = JNull")
    case True
    obtain m where "validateOpts pkg JNull = Inl (TypeError m)"
      using validateOpts_null by blast
    with True show ?thesis by (simp add: constructor_def)
  next
    case False
    with h have "typeof opts \<noteq> ''object''" by (cases opts) simp_all
    then have "validateOpts pkg opts = Inl (TypeError ''Options argument must be an object'')"
      by (rule validateOpts_not_object)
    with h show ?thesis by (simp add: constructor_def)
  qed
next
  assume "k \<in> {''api'', ''startup'', ''shutdown'', ''server''}
        \<and> truthy (field kvs k) \<and> typeof (field kvs k) \<noteq> ''function''"
  then obtain m where "validateOpts pkg (JObj kvs) = Inl (TypeError m)"
    using validateOpts_bad_option by blast
  then show "\<exists>m. constructor fs pkg (JObj kvs) = Inl (TypeError m)"
    by (simp add: constructor_def)
next
  assume "\<forall>k \<in> {''api'', ''startup'', ''shutdown'', ''server''}.
          \<not> truthy (field kvs k) \<or> typeof (field kvs k) = ''function''"
  then show "\<exists>v. validateOpts pkg (JObj kvs) = Inr v
               \<and> v_apiSpec v = js_or (field kvs ''api'') noop
               \<and> v_startup v = js_or (field kvs ''startup'') noop
               \<and> v_shutdown v = js_or (field kvs ''shutdown'') noop
               \<and> v_serverBuilder v = js_or (field kvs ''server'') defaultServerBuilder"
    by (simp add: validateOpts_defaults)
next
  have "validateOpts pkg (JObj []) =
           Inr \<lparr>v_apiSpec = noop, v_startup = noop, v_shutdown = noop,
                v_serverBuilder = defaultServerBuilder,
                v_name = fst (findPkgInfo pkg), v_version = snd (findPkgInfo pkg)\<rparr>"
    by (simp add: validateOpts_defaults field_def js_or_def)
  then show "\<exists>a. constructor fs pkg JUndefined = Inr a
          \<and> apiSpec a = noop \<and> startup a = noop \<and> shutdown a = noop
          \<and> serverBuilder a = defaultServerBuilder \<and> state a = Standby"
    by (simp add: constructor_def setup_app_def confort_def js_or_def field_def emit_def Let_def)
qed

text \<open>The amended claim at \<^verbatim>\<open>false\<close>, at \<^verbatim>\<open>{ api: 3 }\<close>, at
  \<^verbatim>\<open>{ startup: 0 }\<close> and with no options.\<close>

theorem constructor_validates_witness:
  "(\<exists>m. constructor Map.empty None (JBool False) = Inl (TypeError m))
   \<and> (\<exists>m. constructor Map.empty None (JObj [(''api'', JNum 3)]) = Inl (TypeError m))
   \<and> (\<exists>v. validateOpts None (JObj [(''startup'', JNum 0)]) = Inr v \<and> v_startup v = noop)
   \<and> (\<exists>a. constructor Map.empty None JUndefined = Inr a
          \<and> apiSpec a = noop \<and> startup a = noop \<and> shutdown a = noop
          \<and> serverBuilder a = defaultServerBuilder \<and> state a = Standby)"
  using constructor_validates [of "JBool False" Map.empty None "''api''" "[(''api'', JNum 3)]"]
    constructor_validates [of JNull Map.empty None "''api''" "[(''startup'', JNum 0)]"]
  by (auto simp: field_def js_or_def)

section \<open>At most one invocation is inside its transition work\<close>

lemma count_update:
  "i < length ts \<Longrightarrow>
     length (filter P (ts[i := x])) + (if P (ts ! i) then 1 else 0)
       = length (filter P ts) + (if P x then (1::nat) else 0)"
proof (induction ts arbitrary: i)
  case Nil
  then show ?case by simp
next
  case (Cons t ts)
  show ?case
  proof (cases i)
    case 0
    then show ?thesis by simp
  next
    case (Suc j)
    with Cons.prems have "j < length ts" by simp
    from Cons.IH [OF this] Suc show ?thesis by simp
  qed
qed

lemma none_in_transition: "transitioning s = 0 \<longleftrightarrow> (\<forall>t \<in> set (tasks s). \<not> in_transition t)"
  by (simp add: transitioning_def filter_empty_conv)

lemma consistent_quiet:
  assumes "transitioning s = 0"
  shows "consistent s"
proof -
  from assms have "\<forall>t \<in> set (tasks s). \<not> in_transition t" by (simp add: none_in_transition)
  with assms show ?thesis by (simp add: consistent_def in_transition_def)
qed

lemma task_at_update [simp]: "at (t\<lparr>at := p\<rparr>) = p" by simp

text \<open>a task leaves its transition work, or never was in it\<close>
lemma consistent_leave:
  assumes c: "consistent \<lparr>self = a, tasks = ts\<rparr>" and i: "i < length ts"
    and p: "\<not> starting_work p" "\<not> stopping_work p"
    and a': "in_transition (ts ! i) \<or> state a' = state a"
  shows "consistent \<lparr>self = a', tasks = ts[i := (ts ! i)\<lparr>at := p\<rparr>]\<rparr>"
proof -
  let ?ts = "ts[i := (ts ! i)\<lparr>at := p\<rparr>]"
  have np: "\<not> in_transition ((ts ! i)\<lparr>at := p\<rparr>)" using p by (simp add: in_transition_def)
  have cnt: "length (filter in_transition ?ts) + (if in_transition (ts ! i) then 1 else 0)
               = length (filter in_transition ts)"
    using count_update [OF i, of in_transition "(ts ! i)\<lparr>at := p\<rparr>"] np by simp
  have le: "length (filter in_transition ts) \<le> 1"
    using c by (simp add: consistent_def transitioning_def)
  have sub: "set ?ts \<subseteq> insert ((ts ! i)\<lparr>at := p\<rparr>) (set ts)"
    by (rule set_update_subset_insert)
  show ?thesis
  proof (cases "in_transition (ts ! i)")
    case True
    with cnt le have "length (filter in_transition ?ts) = 0" by arith
    then have "\<forall>t \<in> set ?ts. \<not> in_transition t"
      unfolding length_0_conv filter_empty_conv by simp
    then show ?thesis
      by (auto simp: consistent_def transitioning_def filter_empty_conv in_transition_def)
  next
    case False
    with a' have st: "state a' = state a" by simp
    from False cnt le have "length (filter in_transition ?ts) \<le> 1" by simp
    moreover have "\<forall>t \<in> set ?ts. (starting_work (at t) \<longrightarrow> state a' = Starting)
            \<and> (stopping_work (at t) \<longrightarrow> state a' = Stopping)"
    proof
      fix t assume "t \<in> set ?ts"
      with sub have "t = (ts ! i)\<lparr>at := p\<rparr> \<or> t \<in> set ts" by auto
      then show "(starting_work (at t) \<longrightarrow> state a' = Starting)
            \<and> (stopping_work (at t) \<longrightarrow> state a' = Stopping)"
        using c p st by (auto simp: consistent_def)
    qed
    ultimately show ?thesis by (simp add: consistent_def transitioning_def)
  qed
qed

text \<open>a task goes on with its transition work\<close>
lemma consistent_continue:
  assumes c: "consistent \<lparr>self = a, tasks = ts\<rparr>" and i: "i < length ts"
    and p: "starting_work p = starting_work (at (ts ! i))"
           "stopping_work p = stopping_work (at (ts ! i))"
    and a': "state a' = state a"
  shows "consistent \<lparr>self = a', tasks = ts[i := (ts ! i)\<lparr>at := p\<rparr>]\<rparr>"
proof -
  let ?ts = "ts[i := (ts ! i)\<lparr>at := p\<rparr>]"
  have same: "in_transition ((ts ! i)\<lparr>at := p\<rparr>) = in_transition (ts ! i)"
    using p by (simp add: in_transition_def)
  have "length (filter in_transition ?ts) = length (filter in_transition ts)"
    using count_update [OF i, of in_transition "(ts ! i)\<lparr>at := p\<rparr>"] same by simp
  then have le: "length (filter in_transition ?ts) \<le> 1"
    using c by (simp add: consistent_def transitioning_def)
  have sub: "set ?ts \<subseteq> insert ((ts ! i)\<lparr>at := p\<rparr>) (set ts)"
    by (rule set_update_subset_insert)
  have mem: "ts ! i \<in> set ts" using i by simp
  have "\<forall>t \<in> set ?ts. (starting_work (at t) \<longrightarrow> state a' = Starting)
            \<and> (stopping_work (at t) \<longrightarrow> state a' = Stopping)"
  proof
    fix t assume "t \<in> set ?ts"
    with sub have "t = (ts ! i)\<lparr>at := p\<rparr> \<or> t \<in> set ts" by auto
    then show "(starting_work (at t) \<longrightarrow> state a' = Starting)
            \<and> (stopping_work (at t) \<longrightarrow> state a' = Stopping)"
      using c p a' mem by (auto simp: consistent_def)
  qed
  with le show ?thesis by (simp add: consistent_def transitioning_def)
qed

text \<open>a new invocation that does not start its transition work\<close>
lemma consistent_append:
  assumes c: "consistent \<lparr>self = a, tasks = ts\<rparr>"
    and p: "\<not> starting_work p" "\<not> stopping_work p" and a': "state a' = state a"
  shows "consistent \<lparr>self = a', tasks = ts @ [\<lparr>oper = f, at = p\<rparr>]\<rparr>"
  using assms by (auto simp: consistent_def transitioning_def in_transition_def)

text \<open>a new invocation that starts its transition work, from a state of rest\<close>
lemma consistent_enter:
  assumes c: "consistent \<lparr>self = a, tasks = ts\<rparr>"
    and rest: "state a = Standby \<or> state a = Running"
    and p: "(starting_work p \<longrightarrow> state a' = Starting)" "(stopping_work p \<longrightarrow> state a' = Stopping)"
  shows "consistent \<lparr>self = a', tasks = ts @ [\<lparr>oper = f, at = p\<rparr>]\<rparr>"
proof -
  have none: "\<forall>t \<in> set ts. \<not> starting_work (at t) \<and> \<not> stopping_work (at t)"
    using c rest by (auto simp: consistent_def)
  then have "filter in_transition ts = []"
    by (simp add: filter_empty_conv in_transition_def)
  then show ?thesis using none p
    by (auto simp: consistent_def transitioning_def in_transition_def)
qed

lemma consistent_self:
  "consistent s \<Longrightarrow> state a' = state (self s) \<Longrightarrow> consistent (s\<lparr>self := a'\<rparr>)"
  by (simp add: consistent_def transitioning_def)

lemma consistent_move:
  assumes "consistent s" "i < length (tasks s)" "\<not> starting_work p" "\<not> stopping_work p"
  shows "consistent (move i p s)"
proof -
  obtain a ts where s: "s = \<lparr>self = a, tasks = ts\<rparr>" by (cases s)
  from assms show ?thesis
    unfolding s move_def by (simp add: consistent_leave)
qed

lemma start_enter_cases:
  "state a \<in> {Running, Starting} \<and> start_enter a = (Resolved (JStr (state_name (state a))), a)
   \<or> state a = Stopping \<and> fst (start_enter a) = AwaitTimer \<and> state (snd (start_enter a)) = Stopping
   \<or> state a = Standby \<and> fst (start_enter a) = AwaitDelay \<and> state (snd (start_enter a)) = Starting"
  by (cases "state a") (simp_all add: start_enter_def retryShortly_def emit_def)

lemma stop_enter_cases:
  "state a \<in> {Stopping, Standby} \<and> stop_enter a = (Resolved (JStr (state_name (state a))), a)
   \<or> state a = Starting \<and> fst (stop_enter a) = AwaitTimer \<and> state (snd (stop_enter a)) = Starting
   \<or> state a = Running \<and> (fst (stop_enter a) = AwaitShutdown \<or> (\<exists>e. fst (stop_enter a) = Rejected e))
       \<and> state (snd (stop_enter a)) = Stopping"
  by (cases "state a") (simp_all add: stop_enter_def retryShortly_def emit_def call_hook_def Let_def)

lemma invoke_start_consistent:
  assumes "consistent s" shows "consistent (invoke_start s)"
proof -
  obtain a ts where s: "s = \<lparr>self = a, tasks = ts\<rparr>" by (cases s)
  obtain p a' where r: "start_enter a = (p, a')" by (cases "start_enter a")
  have c: "consistent \<lparr>self = a, tasks = ts\<rparr>" using assms s by simp
  have i: "invoke_start s = \<lparr>self = a', tasks = ts @ [\<lparr>oper = Start, at = p\<rparr>]\<rparr>"
    by (simp add: invoke_start_def s r)
  from start_enter_cases [of a] show ?thesis
  proof (elim disjE conjE)
    assume "start_enter a = (Resolved (JStr (state_name (state a))), a)"
    with r have "p = Resolved (JStr (state_name (state a)))" "a' = a" by auto
    then show ?thesis unfolding i using c by (simp add: consistent_append)
  next
    assume "fst (start_enter a) = AwaitTimer" "state (snd (start_enter a)) = Stopping" "state a = Stopping"
    with r have "p = AwaitTimer" "state a' = state a" by simp_all
    then show ?thesis unfolding i using c by (simp add: consistent_append)
  next
    assume "state a = Standby" "fst (start_enter a) = AwaitDelay" "state (snd (start_enter a)) = Starting"
    with r have "p = AwaitDelay" "state a' = Starting" "state a = Standby" by simp_all
    then show ?thesis unfolding i using c by (simp add: consistent_enter)
  qed
qed

lemma invoke_stop_consistent:
  assumes "consistent s" shows "consistent (invoke_stop s)"
proof -
  obtain a ts where s: "s = \<lparr>self = a, tasks = ts\<rparr>" by (cases s)
  obtain p a' where r: "stop_enter a = (p, a')" by (cases "stop_enter a")
  have c: "consistent \<lparr>self = a, tasks = ts\<rparr>" using assms s by simp
  have i: "invoke_stop s = \<lparr>self = a', tasks = ts @ [\<lparr>oper = Stop, at = p\<rparr>]\<rparr>"
    by (simp add: invoke_stop_def s r)
  from stop_enter_cases [of a] show ?thesis
  proof (elim disjE conjE exE)
    assume "stop_enter a = (Resolved (JStr (state_name (state a))), a)"
    with r have "p = Resolved (JStr (state_name (state a)))" "a' = a" by auto
    then show ?thesis unfolding i using c by (simp add: consistent_append)
  next
    assume "fst (stop_enter a) = AwaitTimer" "state (snd (stop_enter a)) = Starting" "state a = Starting"
    with r have "p = AwaitTimer" "state a' = state a" by simp_all
    then show ?thesis unfolding i using c by (simp add: consistent_append)
  next
    assume "state a = Running" "fst (stop_enter a) = AwaitShutdown" "state (snd (stop_enter a)) = Stopping"
    with r have "p = AwaitShutdown" "state a' = Stopping" "state a = Running" by simp_all
    then show ?thesis unfolding i using c by (simp add: consistent_enter)
  next
    fix e
    assume "state a = Running" "fst (stop_enter a) = Rejected e" "state (snd (stop_enter a)) = Stopping"
    with r have "p = Rejected e" "state a' = Stopping" "state a = Running" by simp_all
    then show ?thesis unfolding i using c by (simp add: consistent_enter)
  qed
qed

lemma length_invoke_start [simp]: "length (tasks (invoke_start s)) = Suc (length (tasks s))"
  by (simp add: invoke_start_def split: prod.split)

lemma length_invoke_stop [simp]: "length (tasks (invoke_stop s)) = Suc (length (tasks s))"
  by (simp add: invoke_stop_def split: prod.split)

lemma invoke_restart_consistent:
  assumes "consistent s" shows "consistent (invoke_restart c s)"
proof -
  obtain a ts where s: "s = \<lparr>self = a, tasks = ts\<rparr>" by (cases s)
  have "consistent \<lparr>self = a, tasks = ts @ [\<lparr>oper = Restart c, at = AwaitStop (Suc (length ts))\<rparr>]\<rparr>"
    using assms s by (simp add: consistent_append)
  then show ?thesis
    by (simp add: invoke_restart_def s Let_def invoke_stop_consistent)
qed

lemma invoke_consistent: "consistent s \<Longrightarrow> consistent (invoke f s)"
  by (cases f) (simp_all add: invoke_start_consistent invoke_stop_consistent invoke_restart_consistent)

lemma settle_leave:
  assumes "consistent s" "i < length (tasks s)"
    "\<not> starting_work (fst r)" "\<not> stopping_work (fst r)"
    "in_transition (tasks s ! i) \<or> state (snd r) = state (self s)"
  shows "consistent (settle i r s)"
proof -
  obtain a ts where s: "s = \<lparr>self = a, tasks = ts\<rparr>" by (cases s)
  from assms show ?thesis unfolding s settle_def by (simp add: consistent_leave)
qed

lemma settle_continue:
  assumes "consistent s" "i < length (tasks s)"
    "starting_work (fst r) = starting_work (at (tasks s ! i))"
    "stopping_work (fst r) = stopping_work (at (tasks s ! i))"
    "state (snd r) = state (self s)"
  shows "consistent (settle i r s)"
proof -
  obtain a ts where s: "s = \<lparr>self = a, tasks = ts\<rparr>" by (cases s)
  from assms show ?thesis unfolding s settle_def by (simp add: consistent_continue)
qed

lemma start_after_delay_cases:
  "(fst (start_after_delay a) = AwaitStartup \<or> (\<exists>e. fst (start_after_delay a) = Rejected e))
   \<and> state (snd (start_after_delay a)) = state a"
  by (simp add: start_after_delay_def call_hook_def emit_def Let_def split: sum.split)

lemma start_after_startup_cases:
  "fst (start_after_startup f a) = AwaitServer \<and> state (snd (start_after_startup f a)) = state a
   \<or> (\<exists>e. fst (start_after_startup f a) = Rejected e)
   \<or> (\<exists>v. fst (start_after_startup f a) = Resolved v)"
  by (simp add: start_after_startup_def startServer_listen_def emit_def Let_def split: option.split)

lemma start_after_server_cases:
  "(\<exists>e. fst (start_after_server f a) = Rejected e) \<or> (\<exists>v. fst (start_after_server f a) = Resolved v)"
  by (simp add: start_after_server_def split: option.split)

lemma stop_after_shutdown_cases:
  "fst (stop_after_shutdown f a) = AwaitClosed \<and> snd (stop_after_shutdown f a) = a
   \<or> (\<exists>e. fst (stop_after_shutdown f a) = Rejected e)"
  by (simp add: stop_after_shutdown_def split: option.split)

lemma setup_app_state: "state (snd (setup_app c a)) = state a"
  by (simp add: setup_app_def emit_def Let_def split: sum.split)

lemma restart_reload_state: "state (snd (restart_reload c a)) = state a"
  by (simp add: restart_reload_def setup_app_state emit_def)

lemma resume_consistent:
  assumes c: "consistent s" shows "consistent (resume i f s)"
proof (cases "i < length (tasks s)")
  case False
  then show ?thesis using c by (simp add: resume_def)
next
  case i: True
  show ?thesis
  proof (cases "at (tasks s ! i)")
    case AwaitDelay
    then have t: "in_transition (tasks s ! i)" by (simp add: in_transition_def)
    from start_after_delay_cases [of "self s"] have "consistent (settle i (start_after_delay (self s)) s)"
      using c i AwaitDelay by (auto intro: settle_continue settle_leave)
    then show ?thesis using i AwaitDelay by (simp add: resume_def)
  next
    case AwaitStartup
    then have t: "in_transition (tasks s ! i)" by (simp add: in_transition_def)
    from start_after_startup_cases [of f "self s"]
    have "consistent (settle i (start_after_startup f (self s)) s)"
      using c i AwaitStartup t by (auto intro: settle_continue settle_leave)
    then show ?thesis using i AwaitStartup by (simp add: resume_def)
  next
    case AwaitServer
    then have t: "in_transition (tasks s ! i)" by (simp add: in_transition_def)
    from start_after_server_cases [of f "self s"]
    have "consistent (settle i (start_after_server f (self s)) s)"
      using c i t by (auto intro: settle_leave)
    then show ?thesis using i AwaitServer by (simp add: resume_def)
  next
    case AwaitShutdown
    then have t: "in_transition (tasks s ! i)" by (simp add: in_transition_def)
    from stop_after_shutdown_cases [of f "self s"]
    have "consistent (settle i (stop_after_shutdown f (self s)) s)"
      using c i AwaitShutdown t by (auto intro: settle_continue settle_leave)
    then show ?thesis using i AwaitShutdown by (simp add: resume_def)
  next
    case AwaitClosed
    then have t: "in_transition (tasks s ! i)" by (simp add: in_transition_def)
    have "consistent (settle i (stop_after_closed (self s)) s)"
      using c i t by (intro settle_leave) (simp_all add: stop_after_closed_def)
    then show ?thesis using i AwaitClosed by (simp add: resume_def)
  next
    case AwaitTimer
    show ?thesis
    proof (cases "oper (tasks s ! i)")
      case Start
      then show ?thesis using i AwaitTimer c
        by (simp add: resume_def retry_fire_def Let_def consistent_move invoke_start_consistent)
    next
      case Stop
      then show ?thesis using i AwaitTimer c
        by (simp add: resume_def retry_fire_def Let_def consistent_move invoke_stop_consistent)
    next
      case (Restart x)
      then show ?thesis using i AwaitTimer c by (simp add: resume_def retry_fire_def Let_def)
    qed
  next
    case (AwaitRetried k)
    then show ?thesis using i c
      by (simp add: resume_def retry_done_def consistent_move split: pc.split)
  next
    case (AwaitStop k)
    show ?thesis
    proof (cases "k < length (tasks s)")
      case False
      then show ?thesis using i c AwaitStop by (simp add: resume_def restart_after_stop_def)
    next
      case k: True
      show ?thesis
      proof (cases "at (tasks s ! k)")
        case (Resolved v)
        show ?thesis
        proof (cases "oper (tasks s ! i)")
          case (Restart x)
          obtain e a where r: "restart_reload x (self s) = (e, a)" by (cases "restart_reload x (self s)")
          have "state a = state (self s)" using restart_reload_state [of x "self s"] r by simp
          then have c': "consistent (s\<lparr>self := a\<rparr>)" using c by (simp add: consistent_self)
          have "consistent (move i (Rejected err) (s\<lparr>self := a\<rparr>))" for err
            using c' i by (simp add: consistent_move)
          moreover have "consistent (move i (AwaitStart (length (tasks s))) (invoke_start (s\<lparr>self := a\<rparr>)))"
            using c' i by (simp add: consistent_move invoke_start_consistent)
          ultimately show ?thesis using i k AwaitStop Resolved Restart r
            by (simp add: resume_def restart_after_stop_def split: option.split)
        qed (use i k c AwaitStop Resolved in \<open>simp_all add: resume_def restart_after_stop_def\<close>)
      next
        case (Rejected e)
        then show ?thesis using i k c AwaitStop
          by (simp add: resume_def restart_after_stop_def consistent_move)
      qed (use i k c AwaitStop in \<open>simp_all add: resume_def restart_after_stop_def\<close>)
    qed
  next
    case (AwaitStart k)
    then show ?thesis using i c
      by (simp add: resume_def restart_after_start_def consistent_move split: pc.split)
  next
    case (Resolved v)
    then show ?thesis using i c by (simp add: resume_def)
  next
    case (Rejected e)
    then show ?thesis using i c by (simp add: resume_def)
  qed
qed

lemma step_consistent: "consistent s \<Longrightarrow> consistent (step x s)"
  by (cases x) (simp_all add: invoke_consistent resume_consistent)

lemma run_consistent: "consistent s \<Longrightarrow> consistent (run xs s)"
  by (induction xs arbitrary: s) (simp_all add: step_consistent)

section \<open>Evaluating schedules on a given object\<close>

lemmas eval_defs =
  constructor_def validateOpts_def setup_app_def confort_def js_or_def field_def
  findPkgInfo_def noop_def defaultServerBuilder_def set_log_defaults_def
  start_enter_def start_after_delay_def start_after_startup_def start_after_server_def
  stop_enter_def stop_after_shutdown_def stop_after_closed_def retryShortly_def call_hook_def
  startServer_listen_def startServer_ready_def emit_def restart_reload_def
  invoke_start_def invoke_stop_def invoke_restart_def resume_def settle_def move_def
  retry_fire_def retry_done_def restart_after_stop_def restart_after_start_def
  transitioning_def in_transition_def binds_def Let_def

section \<open>Schedules without a call of \<^verbatim>\<open>stop\<close>\<close>

lemma binds_emit [simp]: "binds (emit e a) = (if is_listen e then Suc (binds a) else binds a)"
  by (simp add: binds_def emit_def)

lemma binds_state_update [simp]: "binds (a\<lparr>state := x\<rparr>) = binds a"
  by (simp add: binds_def)

lemma binds_global_update [simp]: "binds (a\<lparr>global := x\<rparr>) = binds a"
  by (simp add: binds_def)

lemma binds_api_update [simp]: "binds (a\<lparr>api := x\<rparr>) = binds a"
  by (simp add: binds_def)

lemma binds_server_update [simp]: "binds (a\<lparr>server := x\<rparr>) = binds a"
  by (simp add: binds_def)

lemma conf_emit [simp]: "conf (emit e a) = conf a"
  by (simp add: emit_def)

lemma state_emit [simp]: "state (emit e a) = state a"
  by (simp add: emit_def)

lemma start_enter_keeps:
  "conf (snd (start_enter a)) = conf a \<and> binds (snd (start_enter a)) = binds a"
  by (simp add: start_enter_def retryShortly_def)

lemma start_after_delay_keeps:
  "conf (snd (start_after_delay a)) = conf a \<and> binds (snd (start_after_delay a)) = binds a"
  by (simp add: start_after_delay_def call_hook_def Let_def split: sum.split)

lemma start_after_startup_outcomes:
  "(\<exists>e. start_after_startup f a = (Rejected e, a))
   \<or> (fst (start_after_startup f a) = AwaitServer \<and> truthy (field (conf a) ''port'')
       \<and> conf (snd (start_after_startup f a)) = conf a
       \<and> state (snd (start_after_startup f a)) = state a
       \<and> binds (snd (start_after_startup f a)) = Suc (binds a))
   \<or> ((\<exists>v. fst (start_after_startup f a) = Resolved v) \<and> \<not> truthy (field (conf a) ''port'')
       \<and> conf (snd (start_after_startup f a)) = conf a
       \<and> state (snd (start_after_startup f a)) = Running
       \<and> binds (snd (start_after_startup f a)) = binds a)"
  by (cases f) (simp_all add: start_after_startup_def startServer_listen_def Let_def)

lemma start_after_server_outcomes:
  "(\<exists>e. start_after_server f a = (Rejected e, a))
   \<or> ((\<exists>v. fst (start_after_server f a) = Resolved v)
       \<and> conf (snd (start_after_server f a)) = conf a
       \<and> state (snd (start_after_server f a)) = Running
       \<and> binds (snd (start_after_server f a)) = binds a)"
  by (cases f) (simp_all add: start_after_server_def startServer_ready_def)

lemma others_idle:
  assumes c: "consistent \<lparr>self = a, tasks = ts\<rparr>" and i: "i < length ts"
    and t: "in_transition (ts ! i)"
  shows "\<forall>t \<in> set (ts[i := x]). t = x \<or> (t \<in> set ts \<and> \<not> starting_work (at t) \<and> \<not> stopping_work (at t))"
proof -
  let ?d = "(ts ! i)\<lparr>at := Resolved JUndefined\<rparr>"
  have "length (filter in_transition (ts[i := ?d])) + (if in_transition (ts ! i) then 1 else 0)
          = length (filter in_transition ts) + (if in_transition ?d then (1::nat) else 0)"
    by (rule count_update [OF i])
  moreover have "\<not> in_transition ?d" by (simp add: in_transition_def)
  moreover have "length (filter in_transition ts) \<le> 1"
    using c by (simp add: consistent_def transitioning_def)
  ultimately have "length (filter in_transition (ts[i := ?d])) = 0" using t by arith
  then have idle: "\<forall>t \<in> set (ts[i := ?d]). \<not> in_transition t"
    unfolding length_0_conv filter_empty_conv by simp
  have "set (ts[i := x]) \<subseteq> insert x (set (ts[i := ?d]))"
    using set_update_subset_insert [of "ts[i := ?d]" i x] by simp
  moreover have "set (ts[i := ?d]) \<subseteq> insert ?d (set ts)"
    by (rule set_update_subset_insert)
  moreover have "set (ts[i := x]) \<subseteq> insert x (set ts)"
    by (rule set_update_subset_insert)
  ultimately show ?thesis using idle by (auto simp: in_transition_def)
qed

text \<open>the invocation in transition moves on; the others are idle\<close>
lemma bound_once_settle:
  assumes b: "bound_once b c \<lparr>self = a, tasks = ts\<rparr>" and c: "consistent \<lparr>self = a, tasks = ts\<rparr>"
    and i: "i < length ts" and t: "in_transition (ts ! i)"
    and p: "start_pc p" "p \<noteq> AwaitTimer"
      "p = AwaitDelay \<or> p = AwaitStartup \<longrightarrow> binds a' = b"
      "p = AwaitServer \<longrightarrow> binds a' = Suc b \<and> truthy (field c ''port'')"
    and a': "conf a' = c" "state a' \<noteq> Stopping" "state a' = Standby \<longrightarrow> binds a' = b"
      "state a' = Running \<longrightarrow> binds a' = (if truthy (field c ''port'') then Suc b else b)"
      "b \<le> binds a'" "binds a' \<le> Suc b"
  shows "bound_once b c \<lparr>self = a', tasks = ts[i := (ts ! i)\<lparr>at := p\<rparr>]\<rparr>"
proof -
  have mem: "ts ! i \<in> set ts" using i by simp
  have old: "\<forall>t \<in> set ts. start_pc (at t) \<and> (at t = AwaitTimer \<longrightarrow> oper t = Start)"
    using b by (simp add: bound_once_def)
  have "\<forall>t \<in> set (ts[i := (ts ! i)\<lparr>at := p\<rparr>]).
          start_pc (at t) \<and> (at t = AwaitTimer \<longrightarrow> oper t = Start)
          \<and> (at t = AwaitDelay \<or> at t = AwaitStartup \<longrightarrow> binds a' = b)
          \<and> (at t = AwaitServer \<longrightarrow> binds a' = Suc b \<and> truthy (field c ''port''))"
  proof
    fix u assume "u \<in> set (ts[i := (ts ! i)\<lparr>at := p\<rparr>])"
    with others_idle [OF c i t, of "(ts ! i)\<lparr>at := p\<rparr>"]
    have "u = (ts ! i)\<lparr>at := p\<rparr> \<or> (u \<in> set ts \<and> \<not> starting_work (at u) \<and> \<not> stopping_work (at u))"
      by blast
    then show "start_pc (at u) \<and> (at u = AwaitTimer \<longrightarrow> oper u = Start)
          \<and> (at u = AwaitDelay \<or> at u = AwaitStartup \<longrightarrow> binds a' = b)
          \<and> (at u = AwaitServer \<longrightarrow> binds a' = Suc b \<and> truthy (field c ''port''))"
    proof
      assume "u = (ts ! i)\<lparr>at := p\<rparr>"
      then show ?thesis using p old mem by simp
    next
      assume "u \<in> set ts \<and> \<not> starting_work (at u) \<and> \<not> stopping_work (at u)"
      then show ?thesis using old by auto
    qed
  qed
  then show ?thesis using a' by (simp add: bound_once_def)
qed

text \<open>an invocation outside the transition work moves, the object stays\<close>
lemma bound_once_move:
  assumes b: "bound_once b c s" and i: "i < length (tasks s)"
    and p: "start_pc p" "\<not> starting_work p" "p \<noteq> AwaitTimer"
  shows "bound_once b c (move i p s)"
proof -
  have sub: "set ((tasks s)[i := (tasks s ! i)\<lparr>at := p\<rparr>]) \<subseteq> insert ((tasks s ! i)\<lparr>at := p\<rparr>) (set (tasks s))"
    by (rule set_update_subset_insert)
  have mem: "tasks s ! i \<in> set (tasks s)" using i by simp
  have "\<forall>t \<in> set ((tasks s)[i := (tasks s ! i)\<lparr>at := p\<rparr>]).
          start_pc (at t) \<and> (at t = AwaitTimer \<longrightarrow> oper t = Start)
          \<and> (at t = AwaitDelay \<or> at t = AwaitStartup \<longrightarrow> binds (self s) = b)
          \<and> (at t = AwaitServer \<longrightarrow> binds (self s) = Suc b \<and> truthy (field c ''port''))"
  proof
    fix u assume "u \<in> set ((tasks s)[i := (tasks s ! i)\<lparr>at := p\<rparr>])"
    with sub have "u = (tasks s ! i)\<lparr>at := p\<rparr> \<or> u \<in> set (tasks s)" by auto
    then show "start_pc (at u) \<and> (at u = AwaitTimer \<longrightarrow> oper u = Start)
          \<and> (at u = AwaitDelay \<or> at u = AwaitStartup \<longrightarrow> binds (self s) = b)
          \<and> (at u = AwaitServer \<longrightarrow> binds (self s) = Suc b \<and> truthy (field c ''port''))"
      using b p mem by (auto simp: bound_once_def)
  qed
  then show ?thesis using b by (simp add: bound_once_def move_def)
qed

lemma bound_once_invoke_start:
  assumes b: "bound_once b c s" and c: "consistent s"
  shows "bound_once b c (invoke_start s)"
proof -
  obtain a ts where s: "s = \<lparr>self = a, tasks = ts\<rparr>" by (cases s)
  obtain p a' where r: "start_enter a = (p, a')" by (cases "start_enter a")
  have i: "invoke_start s = \<lparr>self = a', tasks = ts @ [\<lparr>oper = Start, at = p\<rparr>]\<rparr>"
    by (simp add: invoke_start_def s r)
  have k: "conf a' = conf a" "binds a' = binds a"
    using start_enter_keeps [of a] r by simp_all
  from start_enter_cases [of a] show ?thesis
  proof (elim disjE conjE)
    assume "start_enter a = (Resolved (JStr (state_name (state a))), a)"
    with r have "p = Resolved (JStr (state_name (state a)))" "a' = a" by auto
    then show ?thesis unfolding i using b by (simp add: s bound_once_def)
  next
    assume "state a = Stopping"
    then show ?thesis using b by (simp add: s bound_once_def)
  next
    assume h: "state a = Standby" "fst (start_enter a) = AwaitDelay"
      "state (snd (start_enter a)) = Starting"
    with r have pa: "p = AwaitDelay" "state a' = Starting" by simp_all
    have none: "\<forall>t \<in> set ts. \<not> starting_work (at t)"
      using c h(1) by (auto simp: s consistent_def)
    have "\<forall>t \<in> set ts. at t \<noteq> AwaitDelay \<and> at t \<noteq> AwaitStartup \<and> at t \<noteq> AwaitServer"
    proof
      fix t assume "t \<in> set ts"
      with none have "\<not> starting_work (at t)" by simp
      then show "at t \<noteq> AwaitDelay \<and> at t \<noteq> AwaitStartup \<and> at t \<noteq> AwaitServer"
        by (cases "at t") simp_all
    qed
    then show ?thesis unfolding i using b h(1) pa k
      by (simp add: s bound_once_def)
  qed
qed

lemma bound_once_resume:
  assumes b: "bound_once b c s" and c: "consistent s"
  shows "bound_once b c (resume i f s)"
proof (cases "i < length (tasks s)")
  case False
  then show ?thesis using b by (simp add: resume_def)
next
  case i: True
  obtain a ts where s: "s = \<lparr>self = a, tasks = ts\<rparr>" by (cases s)
  have b': "bound_once b c \<lparr>self = a, tasks = ts\<rparr>" and c': "consistent \<lparr>self = a, tasks = ts\<rparr>"
    and i': "i < length ts"
    using b c i s by simp_all
  have mem: "ts ! i \<in> set ts" using i' by simp
  have ti: "at (ts ! i) = AwaitTimer \<longrightarrow> oper (ts ! i) = Start" "start_pc (at (ts ! i))"
    using b' mem by (simp_all add: bound_once_def)
  have facts: "conf a = c" "state a \<noteq> Stopping" "b \<le> binds a" "binds a \<le> Suc b"
    "state a = Standby \<longrightarrow> binds a = b"
    "state a = Running \<longrightarrow> binds a = (if truthy (field c ''port'') then Suc b else b)"
    using b' by (simp_all add: bound_once_def)
  show ?thesis
  proof (cases "at (ts ! i)")
    case AwaitDelay
    then have t: "in_transition (ts ! i)" by (simp add: in_transition_def)
    have st: "state a = Starting" using c' mem AwaitDelay by (auto simp: consistent_def)
    have ba: "binds a = b" using b' mem AwaitDelay by (auto simp: bound_once_def)
    obtain p a' where r: "start_after_delay a = (p, a')" by (cases "start_after_delay a")
    have k: "conf a' = conf a" "binds a' = binds a" "state a' = state a"
      "p = AwaitStartup \<or> (\<exists>e. p = Rejected e)"
      using start_after_delay_keeps [of a] start_after_delay_cases [of a] r by simp_all
    have "bound_once b c \<lparr>self = a', tasks = ts[i := (ts ! i)\<lparr>at := p\<rparr>]\<rparr>"
      using k facts st ba by (intro bound_once_settle [OF b' c' i' t]) auto
    then show ?thesis using i' AwaitDelay r by (simp add: s resume_def settle_def)
  next
    case AwaitStartup
    then have t: "in_transition (ts ! i)" by (simp add: in_transition_def)
    have st: "state a = Starting" using c' mem AwaitStartup by (auto simp: consistent_def)
    have ba: "binds a = b" using b' mem AwaitStartup by (auto simp: bound_once_def)
    obtain p a' where r: "start_after_startup f a = (p, a')" by (cases "start_after_startup f a")
    have "bound_once b c \<lparr>self = a', tasks = ts[i := (ts ! i)\<lparr>at := p\<rparr>]\<rparr>"
      using start_after_startup_outcomes [of f a] r facts st ba
      by (intro bound_once_settle [OF b' c' i' t]) auto
    then show ?thesis using i' AwaitStartup r by (simp add: s resume_def settle_def)
  next
    case AwaitServer
    then have t: "in_transition (ts ! i)" by (simp add: in_transition_def)
    have st: "state a = Starting" using c' mem AwaitServer by (auto simp: consistent_def)
    have ba: "binds a = Suc b" "truthy (field c ''port'')"
      using b' mem AwaitServer by (auto simp: bound_once_def)
    obtain p a' where r: "start_after_server f a = (p, a')" by (cases "start_after_server f a")
    have "bound_once b c \<lparr>self = a', tasks = ts[i := (ts ! i)\<lparr>at := p\<rparr>]\<rparr>"
      using start_after_server_outcomes [of f a] r facts st ba
      by (intro bound_once_settle [OF b' c' i' t]) auto
    then show ?thesis using i' AwaitServer r by (simp add: s resume_def settle_def)
  next
    case AwaitTimer
    have "bound_once b c (move i (AwaitRetried (length (tasks s))) (invoke_start s))"
      using b c i by (intro bound_once_move bound_once_invoke_start) simp_all
    then show ?thesis using i AwaitTimer ti s by (simp add: resume_def retry_fire_def Let_def)
  next
    case (AwaitRetried k)
    have "bound_once b c (move i (Resolved v) \<lparr>self = a, tasks = ts\<rparr>)" for v
      using b' i' by (intro bound_once_move) simp_all
    then show ?thesis using i' AwaitRetried b'
      by (simp add: s resume_def retry_done_def split: pc.split)
  next
    case (Resolved v)
    then show ?thesis using i s b by (simp add: resume_def)
  next
    case (Rejected e)
    then show ?thesis using i s b by (simp add: resume_def)
  qed (use ti in simp_all)
qed

lemma run_bound_once:
  "bound_once b c s \<Longrightarrow> consistent s \<Longrightarrow> \<forall>x \<in> set xs. start_or_resume x
     \<Longrightarrow> bound_once b c (run xs s) \<and> consistent (run xs s)"
proof (induction xs arbitrary: s)
  case Nil
  then show ?case by simp
next
  case (Cons x xs)
  have "bound_once b c (step x s) \<and> consistent (step x s)"
  proof (cases x)
    case (Call g)
    with Cons.prems have "g = Start" by (cases g) simp_all
    with Call Cons.prems show ?thesis
      by (simp add: bound_once_invoke_start invoke_start_consistent)
  next
    case (Resume i f)
    with Cons.prems show ?thesis by (simp add: bound_once_resume resume_consistent)
  qed
  with Cons show ?case by simp
qed

lemma settled_idle: "settled p \<Longrightarrow> start_pc p \<and> p \<noteq> AwaitTimer \<and> \<not> starting_work p \<and> \<not> stopping_work p"
  by (cases p) simp_all

lemma bound_once_rest:
  assumes "\<forall>t \<in> set (tasks s). settled (at t)" and "state (self s) = Standby"
  shows "bound_once (binds (self s)) (conf (self s)) s"
  using assms by (auto simp: bound_once_def dest: settled_idle)

lemma consistent_rest:
  assumes "\<forall>t \<in> set (tasks s). settled (at t)"
  shows "consistent s"
proof -
  have "\<forall>t \<in> set (tasks s). \<not> in_transition t"
    using assms by (auto simp: in_transition_def dest: settled_idle)
  then have "transitioning s = 0" by (simp add: none_in_transition)
  then show ?thesis by (rule consistent_quiet)
qed

lemma tasks_move: "tasks (move j p s) = (tasks s)[j := (tasks s ! j)\<lparr>at := p\<rparr>]"
  by (simp add: move_def)

lemma tasks_settle: "tasks (settle j r s) = (tasks s)[j := (tasks s ! j)\<lparr>at := fst r\<rparr>]"
  by (simp add: settle_def)

lemma tasks_invoke_start: "tasks (invoke_start s) = tasks s @ [\<lparr>oper = Start, at = fst (start_enter (self s))\<rparr>]"
  by (simp add: invoke_start_def split: prod.split)

lemma tasks_invoke_stop: "tasks (invoke_stop s) = tasks s @ [\<lparr>oper = Stop, at = fst (stop_enter (self s))\<rparr>]"
  by (simp add: invoke_stop_def split: prod.split)

lemma tasks_self_update [simp]: "tasks (s\<lparr>self := a\<rparr>) = tasks s"
  by simp

lemma invoke_keeps:
  assumes "i < length (tasks s)"
  shows "i < length (tasks (invoke g s)) \<and> tasks (invoke g s) ! i = tasks s ! i"
  using assms
  by (cases g) (simp_all add: tasks_invoke_start tasks_invoke_stop invoke_restart_def Let_def nth_append)

lemma resume_keeps_others:
  assumes "i < length (tasks s)" "j \<noteq> i"
  shows "i < length (tasks (resume j f s)) \<and> tasks (resume j f s) ! i = tasks s ! i"
proof (cases "j < length (tasks s)")
  case False
  then show ?thesis using assms by (simp add: resume_def)
next
  case True
  show ?thesis
  proof (cases "at (tasks s ! j)")
    case AwaitTimer
    then show ?thesis using assms True
      by (cases "oper (tasks s ! j)")
         (simp_all add: resume_def retry_fire_def Let_def tasks_move tasks_invoke_start
            tasks_invoke_stop nth_append)
  next
    case (AwaitRetried k)
    then show ?thesis using assms True
      by (simp add: resume_def retry_done_def tasks_move split: pc.split)
  next
    case (AwaitStop k)
    then show ?thesis using assms True
      by (simp add: resume_def restart_after_stop_def tasks_move tasks_invoke_start nth_append
          split: pc.split operation.split prod.split option.split)
  next
    case (AwaitStart k)
    then show ?thesis using assms True
      by (simp add: resume_def restart_after_start_def tasks_move split: pc.split)
  qed (use assms True in \<open>simp_all add: resume_def tasks_settle\<close>)
qed

lemma step_keeps_settled:
  assumes "i < length (tasks s)" "settled (at (tasks s ! i))"
  shows "i < length (tasks (step x s)) \<and> tasks (step x s) ! i = tasks s ! i"
proof (cases x)
  case (Call g)
  then show ?thesis using assms(1) by (simp add: invoke_keeps)
next
  case (Resume j f)
  show ?thesis
  proof (cases "j = i")
    case True
    then show ?thesis using assms Resume
      by (cases "at (tasks s ! i)") (simp_all add: resume_def)
  next
    case False
    then show ?thesis using assms(1) Resume by (simp add: resume_keeps_others)
  qed
qed

lemma run_keeps_settled:
  "i < length (tasks s) \<Longrightarrow> settled (at (tasks s ! i))
     \<Longrightarrow> i < length (tasks (run xs s)) \<and> tasks (run xs s) ! i = tasks s ! i"
proof (induction xs arbitrary: s)
  case Nil
  then show ?case by simp
next
  case (Cons x xs)
  from step_keeps_settled [OF Cons.prems]
  have "i < length (tasks (step x s))" "tasks (step x s) ! i = tasks s ! i" by simp_all
  with Cons.IH [of "step x s"] Cons.prems(2) show ?case by simp
qed

section \<open>Overlapping lifecycle calls\<close>

text \<open>
  Claim C3: when \<^verbatim>\<open>start()\<close> is called while the state is \<^verbatim>\<open>stopping\<close>, and
  \<^verbatim>\<open>stop()\<close> while it is \<^verbatim>\<open>starting\<close>, the call leaves the state as it is and
  sets a timer of 1000 ms; when the timer fires the method is called again, which
  sets the next timer as long as the competing transition lasts and proceeds with its
  own transition once the state is back at rest; and in every schedule of calls and
  resumptions, from any system where no invocation is inside its transition work, at
  most one invocation at a time is.
\<close>

theorem no_concurrent_transitions:
  "(state (self s) = Stopping \<longrightarrow>
      step (Call Start) s =
        \<lparr>self = (self s)\<lparr>events := events (self s) @ [TimerSet (JNum 1000)]\<rparr>,
         tasks = tasks s @ [\<lparr>oper = Start, at = AwaitTimer\<rparr>]\<rparr>)
   \<and> (state (self s) = Starting \<longrightarrow>
      step (Call Stop) s =
        \<lparr>self = (self s)\<lparr>events := events (self s) @ [TimerSet (JNum 1000)]\<rparr>,
         tasks = tasks s @ [\<lparr>oper = Stop, at = AwaitTimer\<rparr>]\<rparr>)
   \<and> (i < length (tasks s) \<and> tasks s ! i = \<lparr>oper = Start, at = AwaitTimer\<rparr>
        \<and> state (self s) = Stopping \<longrightarrow>
      step (Resume i f) s =
        \<lparr>self = (self s)\<lparr>events := events (self s) @ [TimerSet (JNum 1000)]\<rparr>,
         tasks = (tasks s)[i := \<lparr>oper = Start, at = AwaitRetried (length (tasks s))\<rparr>]
                   @ [\<lparr>oper = Start, at = AwaitTimer\<rparr>]\<rparr>)
   \<and> (i < length (tasks s) \<and> tasks s ! i = \<lparr>oper = Stop, at = AwaitTimer\<rparr>
        \<and> state (self s) = Starting \<longrightarrow>
      step (Resume i f) s =
        \<lparr>self = (self s)\<lparr>events := events (self s) @ [TimerSet (JNum 1000)]\<rparr>,
         tasks = (tasks s)[i := \<lparr>oper = Stop, at = AwaitRetried (length (tasks s))\<rparr>]
                   @ [\<lparr>oper = Stop, at = AwaitTimer\<rparr>]\<rparr>)
   \<and> (i < length (tasks s) \<and> tasks s ! i = \<lparr>oper = Start, at = AwaitTimer\<rparr>
        \<and> state (self s) = Standby \<longrightarrow>
      state (self (step (Resume i f) s)) = Starting
      \<and> tasks (step (Resume i f) s) =
          (tasks s)[i := \<lparr>oper = Start, at = AwaitRetried (length (tasks s))\<rparr>]
            @ [\<lparr>oper = Start, at = AwaitDelay\<rparr>])
   \<and> (transitioning s = 0 \<longrightarrow> transitioning (run xs s) \<le> 1)"
proof -
  obtain a ts where s: "s = \<lparr>self = a, tasks = ts\<rparr>" by (cases s)
  have 1: "state (self s) = Stopping \<longrightarrow>
      step (Call Start) s =
        \<lparr>self = (self s)\<lparr>events := events (self s) @ [TimerSet (JNum 1000)]\<rparr>,
         tasks = tasks s @ [\<lparr>oper = Start, at = AwaitTimer\<rparr>]\<rparr>"
    by (simp add: s invoke_start_def start_enter_def retryShortly_def emit_def)
  have 2: "state (self s) = Starting \<longrightarrow>
      step (Call Stop) s =
        \<lparr>self = (self s)\<lparr>events := events (self s) @ [TimerSet (JNum 1000)]\<rparr>,
         tasks = tasks s @ [\<lparr>oper = Stop, at = AwaitTimer\<rparr>]\<rparr>"
    by (simp add: s invoke_stop_def stop_enter_def retryShortly_def emit_def)
  have 3: "i < length (tasks s) \<and> tasks s ! i = \<lparr>oper = Start, at = AwaitTimer\<rparr>
        \<and> state (self s) = Stopping \<longrightarrow>
      step (Resume i f) s =
        \<lparr>self = (self s)\<lparr>events := events (self s) @ [TimerSet (JNum 1000)]\<rparr>,
         tasks = (tasks s)[i := \<lparr>oper = Start, at = AwaitRetried (length (tasks s))\<rparr>]
                   @ [\<lparr>oper = Start, at = AwaitTimer\<rparr>]\<rparr>"
    by (simp add: s resume_def retry_fire_def move_def invoke_start_def start_enter_def
        retryShortly_def emit_def Let_def list_update_append nth_append)
  have 4: "i < length (tasks s) \<and> tasks s ! i = \<lparr>oper = Stop, at = AwaitTimer\<rparr>
        \<and> state (self s) = Starting \<longrightarrow>
      step (Resume i f) s =
        \<lparr>self = (self s)\<lparr>events := events (self s) @ [TimerSet (JNum 1000)]\<rparr>,
         tasks = (tasks s)[i := \<lparr>oper = Stop, at = AwaitRetried (length (tasks s))\<rparr>]
                   @ [\<lparr>oper = Stop, at = AwaitTimer\<rparr>]\<rparr>"
    by (simp add: s resume_def retry_fire_def move_def invoke_stop_def stop_enter_def
        retryShortly_def emit_def Let_def list_update_append nth_append)
  have 5: "i < length (tasks s) \<and> tasks s ! i = \<lparr>oper = Start, at = AwaitTimer\<rparr>
        \<and> state (self s) = Standby \<longrightarrow>
      state (self (step (Resume i f) s)) = Starting
      \<and> tasks (step (Resume i f) s) =
          (tasks s)[i := \<lparr>oper = Start, at = AwaitRetried (length (tasks s))\<rparr>]
            @ [\<lparr>oper = Start, at = AwaitDelay\<rparr>]"
    by (simp add: s resume_def retry_fire_def move_def invoke_start_def start_enter_def
        retryShortly_def emit_def Let_def list_update_append nth_append)
  have 6: "transitioning s = 0 \<longrightarrow> transitioning (run xs s) \<le> 1"
  proof
    assume "transitioning s = 0"
    then have "consistent (run xs s)" by (intro run_consistent consistent_quiet)
    then show "transitioning (run xs s) \<le> 1" by (simp add: consistent_def)
  qed
  from 1 2 3 4 5 6 show ?thesis by blast
qed

text \<open>
  A server made with no options is started and then stopped, and \<^verbatim>\<open>start()\<close> is
  called while the stop waits for the shutdown hook; the same server with \<^verbatim>\<open>stop()\<close>
  called during the startup delay; and a schedule with three overlapping calls.
\<close>

theorem no_concurrent_transitions_witness:
  "(let init = \<lparr>self = projr (constructor Map.empty None JUndefined), tasks = []\<rparr>;
        stopping = run [Call Start, Resume 0 None, Resume 0 None, Call Stop] init;
        polling = step (Call Start) stopping;
        stopped = run [Resume 1 None, Resume 1 None] (step (Resume 2 None) polling);
        starting = step (Call Start) init
    in state (self stopping) = Stopping
       \<and> state (self polling) = Stopping
       \<and> tasks polling ! 2 = \<lparr>oper = Start, at = AwaitTimer\<rparr>
       \<and> events (self polling) = events (self stopping) @ [TimerSet (JNum 1000)]
       \<and> state (self (step (Resume 2 None) polling)) = Stopping
       \<and> tasks (step (Resume 2 None) polling) ! 3 = \<lparr>oper = Start, at = AwaitTimer\<rparr>
       \<and> state (self stopped) = Standby
       \<and> state (self (step (Resume 3 None) stopped)) = Starting
       \<and> state (self starting) = Starting
       \<and> state (self (step (Call Stop) starting)) = Starting
       \<and> tasks (step (Call Stop) starting) ! 1 = \<lparr>oper = Stop, at = AwaitTimer\<rparr>
       \<and> tasks (step (Resume 1 None) (step (Call Stop) starting)) ! 2
            = \<lparr>oper = Stop, at = AwaitTimer\<rparr>
       \<and> transitioning init = 0
       \<and> transitioning (run [Call Start, Call Stop, Resume 0 None, Call Start] init) \<le> 1)"
proof -
  define init where "init = \<lparr>self = projr (constructor Map.empty None JUndefined), tasks = []\<rparr>"
  define stopping where "stopping = run [Call Start, Resume 0 None, Resume 0 None, Call Stop] init"
  define polling where "polling = step (Call Start) stopping"
  define polling2 where "polling2 = step (Resume 2 None) polling"
  define stopped where "stopped = run [Resume 1 None, Resume 1 None] polling2"
  define starting where "starting = step (Call Start) init"
  define waiting where "waiting = step (Call Stop) starting"
  have stopping: "state (self stopping) = Stopping" "length (tasks stopping) = 2"
    by (simp_all add: stopping_def init_def eval_defs)
  have p1: "polling = \<lparr>self = (self stopping)\<lparr>events := events (self stopping) @ [TimerSet (JNum 1000)]\<rparr>,
         tasks = tasks stopping @ [\<lparr>oper = Start, at = AwaitTimer\<rparr>]\<rparr>"
    unfolding polling_def using no_concurrent_transitions [where s = stopping] stopping by blast
  have polling: "state (self polling) = Stopping" "tasks polling ! 2 = \<lparr>oper = Start, at = AwaitTimer\<rparr>"
    "2 < length (tasks polling)" "length (tasks polling) = 3"
    "events (self polling) = events (self stopping) @ [TimerSet (JNum 1000)]"
    using stopping by (simp_all add: p1 nth_append)
  have p2: "polling2 = \<lparr>self = (self polling)\<lparr>events := events (self polling) @ [TimerSet (JNum 1000)]\<rparr>,
         tasks = (tasks polling)[2 := \<lparr>oper = Start, at = AwaitRetried (length (tasks polling))\<rparr>]
                   @ [\<lparr>oper = Start, at = AwaitTimer\<rparr>]\<rparr>"
    unfolding polling2_def using no_concurrent_transitions [where s = polling and i = 2 and f = None] polling by blast
  have polling2: "state (self polling2) = Stopping" "tasks polling2 ! 3 = \<lparr>oper = Start, at = AwaitTimer\<rparr>"
    using polling by (simp_all add: p2 nth_append)
  have stopped: "state (self stopped) = Standby" "3 < length (tasks stopped)"
    "tasks stopped ! 3 = \<lparr>oper = Start, at = AwaitTimer\<rparr>"
    by (simp_all add: stopped_def polling2_def polling_def stopping_def init_def eval_defs)
  have p3: "state (self (step (Resume 3 None) stopped)) = Starting"
    using no_concurrent_transitions [where s = stopped and i = 3 and f = None] stopped by blast
  have starting: "state (self starting) = Starting" "length (tasks starting) = 1"
    by (simp_all add: starting_def init_def eval_defs)
  have w1: "waiting = \<lparr>self = (self starting)\<lparr>events := events (self starting) @ [TimerSet (JNum 1000)]\<rparr>,
         tasks = tasks starting @ [\<lparr>oper = Stop, at = AwaitTimer\<rparr>]\<rparr>"
    unfolding waiting_def using no_concurrent_transitions [where s = starting] starting by blast
  have waiting: "state (self waiting) = Starting" "tasks waiting ! 1 = \<lparr>oper = Stop, at = AwaitTimer\<rparr>"
    "1 < length (tasks waiting)" "length (tasks waiting) = 2"
    using starting by (simp_all add: w1 nth_append)
  have w2: "step (Resume 1 None) waiting =
        \<lparr>self = (self waiting)\<lparr>events := events (self waiting) @ [TimerSet (JNum 1000)]\<rparr>,
         tasks = (tasks waiting)[1 := \<lparr>oper = Stop, at = AwaitRetried (length (tasks waiting))\<rparr>]
                   @ [\<lparr>oper = Stop, at = AwaitTimer\<rparr>]\<rparr>"
    using no_concurrent_transitions [where s = waiting and i = 1 and f = None] waiting by blast
  have waiting2: "tasks (step (Resume 1 None) waiting) ! 2 = \<lparr>oper = Stop, at = AwaitTimer\<rparr>"
    using waiting unfolding w2 by (simp add: nth_append)
  have quiet: "transitioning init = 0" by (simp add: init_def transitioning_def)
  have excl: "transitioning (run [Call Start, Call Stop, Resume 0 None, Call Start] init) \<le> 1"
    using no_concurrent_transitions [where s = init and xs = "[Call Start, Call Stop, Resume 0 None, Call Start]"] quiet
    by blast
  show ?thesis
    unfolding Let_def
    using stopping(1) polling(1,2,5) polling2 stopped(1) p3 starting(1) waiting(1,2) waiting2 quiet excl
    unfolding waiting_def starting_def stopped_def polling2_def polling_def stopping_def init_def
    by (intro conjI) assumption+
qed

section \<open>Runs of one call\<close>

lemma call_stop_running:
  assumes "state a = Running" "typeof (shutdown a) = ''function''"
  shows "step (Call Stop) \<lparr>self = a, tasks = ts\<rparr> =
     \<lparr>self = a\<lparr>state := Stopping,
                events := events a @ (if server a \<noteq> None then [CloseCalled] else [])
                            @ [HookCalled Shutdown]\<rparr>,
      tasks = ts @ [\<lparr>oper = Stop, at = AwaitShutdown\<rparr>]\<rparr>"
  using assms by (simp add: invoke_stop_def stop_enter_def call_hook_def emit_def Let_def)

lemma resume_shutdown_ok:
  "step (Resume (length ts) None) \<lparr>self = a, tasks = ts @ [\<lparr>oper = Stop, at = AwaitShutdown\<rparr>]\<rparr> =
     \<lparr>self = a, tasks = ts @ [\<lparr>oper = Stop, at = AwaitClosed\<rparr>]\<rparr>"
  by (simp add: resume_def settle_def stop_after_shutdown_def)

lemma resume_closed:
  "step (Resume (length ts) f) \<lparr>self = a, tasks = ts @ [\<lparr>oper = Stop, at = AwaitClosed\<rparr>]\<rparr> =
     \<lparr>self = a\<lparr>global := None, events := events a @ [LogCall Info ''Stopped'' []],
               state := Standby\<rparr>,
      tasks = ts @ [\<lparr>oper = Stop, at = Resolved (JStr ''standby'')\<rparr>]\<rparr>"
  by (simp add: resume_def settle_def stop_after_closed_def emit_def)

lemma stop_run:
  assumes "state a = Running" "typeof (shutdown a) = ''function''"
  shows "run [Call Stop, Resume (length ts) None, Resume (length ts) None] \<lparr>self = a, tasks = ts\<rparr> =
     \<lparr>self = a\<lparr>state := Standby, global := None,
               events := events a @ (if server a \<noteq> None then [CloseCalled] else [])
                           @ [HookCalled Shutdown, LogCall Info ''Stopped'' []]\<rparr>,
      tasks = ts @ [\<lparr>oper = Stop, at = Resolved (JStr ''standby'')\<rparr>]\<rparr>"
  unfolding run.simps call_stop_running [OF assms] resume_shutdown_ok resume_closed by simp

lemma call_stop_idle:
  assumes "state a = Standby \<or> state a = Stopping"
  shows "step (Call Stop) \<lparr>self = a, tasks = ts\<rparr> =
        \<lparr>self = a, tasks = ts @ [\<lparr>oper = Stop, at = Resolved (JStr (state_name (state a)))\<rparr>]\<rparr>"
  using assms by (auto simp: invoke_stop_def stop_enter_def)

lemma call_stop_any:
  "\<exists>p a'. step (Call Stop) \<lparr>self = a, tasks = ts\<rparr> = \<lparr>self = a', tasks = ts @ [\<lparr>oper = Stop, at = p\<rparr>]\<rparr>
     \<and> state a' \<noteq> Running"
  by (cases "state a")
     (simp_all add: invoke_stop_def stop_enter_def call_hook_def emit_def retryShortly_def Let_def)

lemma call_stop_not_running:
  assumes "state a \<noteq> Running"
  shows "step (Call Stop) \<lparr>self = a, tasks = ts\<rparr> =
           \<lparr>self = (if state a = Starting then emit (TimerSet (JNum 1000)) a else a),
            tasks = ts @ [\<lparr>oper = Stop, at = (if state a = Starting then AwaitTimer
               else Resolved (JStr (state_name (state a))))\<rparr>]\<rparr>"
  using assms by (cases "state a") (simp_all add: invoke_stop_def stop_enter_def retryShortly_def)

lemma function_value: "typeof v = ''function'' \<Longrightarrow> \<exists>f n. v = JFun f n"
  by (cases v) simp_all

lemma call_start_standby:
  assumes "state a = Standby"
  shows "step (Call Start) \<lparr>self = a, tasks = ts\<rparr> =
     \<lparr>self = a\<lparr>state := Starting, events := events a @ [TimerSet (field (conf a) ''delay'')]\<rparr>,
      tasks = ts @ [\<lparr>oper = Start, at = AwaitDelay\<rparr>]\<rparr>"
  using assms by (simp add: invoke_start_def start_enter_def emit_def)

lemma resume_delay:
  "step (Resume (length ts) f) \<lparr>self = a, tasks = ts @ [\<lparr>oper = Start, at = AwaitDelay\<rparr>]\<rparr> =
     \<lparr>self = snd (start_after_delay a),
      tasks = ts @ [\<lparr>oper = Start, at = fst (start_after_delay a)\<rparr>]\<rparr>"
  by (simp add: resume_def settle_def)

lemma resume_startup:
  "step (Resume (length ts) f) \<lparr>self = a, tasks = ts @ [\<lparr>oper = Start, at = AwaitStartup\<rparr>]\<rparr> =
     \<lparr>self = snd (start_after_startup f a),
      tasks = ts @ [\<lparr>oper = Start, at = fst (start_after_startup f a)\<rparr>]\<rparr>"
  by (simp add: resume_def settle_def)

lemma resume_server:
  "step (Resume (length ts) f) \<lparr>self = a, tasks = ts @ [\<lparr>oper = Start, at = AwaitServer\<rparr>]\<rparr> =
     \<lparr>self = snd (start_after_server f a),
      tasks = ts @ [\<lparr>oper = Start, at = fst (start_after_server f a)\<rparr>]\<rparr>"
  by (simp add: resume_def settle_def)

lemma start_after_delay_function:
  assumes "typeof (startup a) = ''function''"
  shows "fst (start_after_delay a) = AwaitStartup"
    and "state (snd (start_after_delay a)) = state a"
    and "conf (snd (start_after_delay a)) = conf a"
    and "server (snd (start_after_delay a)) = server a"
    and "name (snd (start_after_delay a)) = name a"
    and "version (snd (start_after_delay a)) = version a"
    and "startup (snd (start_after_delay a)) = startup a"
    and "shutdown (snd (start_after_delay a)) = shutdown a"
    and "global (snd (start_after_delay a)) = Some []"
    and "binds (snd (start_after_delay a)) = binds a"
    and "\<exists>mid. events (snd (start_after_delay a)) = events a @ mid @ [HookCalled Startup]
           \<and> set mid \<subseteq> {ApiBuilt, LogCall Debug ''Starting up %s...'' [name a]}"
proof -
  obtain f n where f: "startup a = JFun f n" using assms function_value by blast
  show "fst (start_after_delay a) = AwaitStartup"
    and "state (snd (start_after_delay a)) = state a"
    and "conf (snd (start_after_delay a)) = conf a"
    and "server (snd (start_after_delay a)) = server a"
    and "name (snd (start_after_delay a)) = name a"
    and "version (snd (start_after_delay a)) = version a"
    and "startup (snd (start_after_delay a)) = startup a"
    and "shutdown (snd (start_after_delay a)) = shutdown a"
    and "global (snd (start_after_delay a)) = Some []"
    and "binds (snd (start_after_delay a)) = binds a"
    by (simp_all add: start_after_delay_def call_hook_def f Let_def binds_def emit_def)
  show "\<exists>mid. events (snd (start_after_delay a)) = events a @ mid @ [HookCalled Startup]
           \<and> set mid \<subseteq> {ApiBuilt, LogCall Debug ''Starting up %s...'' [name a]}"
  proof (cases "truthy (alwaysRebuildAPI a)")
    case True
    show ?thesis
    proof (cases n)
      case True
      with \<open>truthy (alwaysRebuildAPI a)\<close> show ?thesis
        by (intro exI [of _ "[ApiBuilt]"])
           (simp add: start_after_delay_def call_hook_def f Let_def emit_def)
    next
      case False
      with \<open>truthy (alwaysRebuildAPI a)\<close> show ?thesis
        by (intro exI [of _ "[ApiBuilt, LogCall Debug ''Starting up %s...'' [name a]]"])
           (simp add: start_after_delay_def call_hook_def f Let_def emit_def)
    qed
  next
    case False
    show ?thesis
    proof (cases n)
      case True
      with \<open>\<not> truthy (alwaysRebuildAPI a)\<close> show ?thesis
        by (intro exI [of _ "[]"])
           (simp add: start_after_delay_def call_hook_def f Let_def emit_def)
    next
      case False
      with \<open>\<not> truthy (alwaysRebuildAPI a)\<close> show ?thesis
        by (intro exI [of _ "[LogCall Debug ''Starting up %s...'' [name a]]"])
           (simp add: start_after_delay_def call_hook_def f Let_def emit_def)
    qed
  qed
qed

lemma start_after_startup_headless:
  assumes "\<not> truthy (field (conf a) ''port'')"
  shows "start_after_startup None a =
     (Resolved (JStr ''running''),
      a\<lparr>events := events a @ [LogCall Info ''%s v%s has started'' [name a, version a]],
        state := Running\<rparr>)"
  using assms by (simp add: start_after_startup_def emit_def)

text \<open>A start without a port, run alone.\<close>

lemma start_run_headless:
  assumes "state a = Standby" "\<not> truthy (field (conf a) ''port'')"
    "typeof (startup a) = ''function''"
  shows "\<exists>a1. run [Call Start, Resume (length ts) None, Resume (length ts) None]
                \<lparr>self = a, tasks = ts\<rparr>
              = \<lparr>self = a1, tasks = ts @ [\<lparr>oper = Start, at = Resolved (JStr ''running'')\<rparr>]\<rparr>
            \<and> state a1 = Running \<and> server a1 = server a \<and> conf a1 = conf a
            \<and> shutdown a1 = shutdown a \<and> binds a1 = binds a \<and> global a1 = Some []
            \<and> HookCalled Startup \<in> set (events a1)
            \<and> last (events a1) = LogCall Info ''%s v%s has started'' [name a, version a]"
proof -
  let ?a0 = "a\<lparr>state := Starting, events := events a @ [TimerSet (field (conf a) ''delay'')]\<rparr>"
  let ?a1 = "snd (start_after_delay ?a0)"
  have f0: "typeof (startup ?a0) = ''function''" using assms(3) by simp
  note d = start_after_delay_function [OF f0]
  have port: "\<not> truthy (field (conf ?a1) ''port'')" using assms(2) d(3) by simp
  let ?a2 = "?a1\<lparr>events := events ?a1 @ [LogCall Info ''%s v%s has started'' [name ?a1, version ?a1]],
        state := Running\<rparr>"
  have r: "run [Call Start, Resume (length ts) None, Resume (length ts) None] \<lparr>self = a, tasks = ts\<rparr>
      = \<lparr>self = ?a2, tasks = ts @ [\<lparr>oper = Start, at = Resolved (JStr ''running'')\<rparr>]\<rparr>"
    unfolding run.simps call_start_standby [OF assms(1)] resume_delay d(1) resume_startup
      start_after_startup_headless [OF port]
    by simp
  obtain mid where mid: "events ?a1 = events ?a0 @ mid @ [HookCalled Startup]"
    using d(11) by blast
  have "state ?a2 = Running" "server ?a2 = server a" "conf ?a2 = conf a"
    "shutdown ?a2 = shutdown a" "global ?a2 = Some []"
    "last (events ?a2) = LogCall Info ''%s v%s has started'' [name a, version a]"
    using d by simp_all
  moreover have "binds ?a2 = binds a"
    using d(10) by (simp add: binds_def)
  moreover have "HookCalled Startup \<in> set (events ?a2)"
    using mid by simp
  ultimately show ?thesis using r by blast
qed

lemma consistent_starting:
  assumes "consistent s" "i < length (tasks s)" "starting_work (at (tasks s ! i))"
  shows "state (self s) = Starting"
proof -
  have "tasks s ! i \<in> set (tasks s)" using assms(2) by simp
  with assms(1,3) show ?thesis unfolding consistent_def by blast
qed

lemma consistent_stopping:
  assumes "consistent s" "i < length (tasks s)" "stopping_work (at (tasks s ! i))"
  shows "state (self s) = Stopping"
proof -
  have "tasks s ! i \<in> set (tasks s)" using assms(2) by simp
  with assms(1,3) show ?thesis unfolding consistent_def by blast
qed

lemma resume_failure_startup:
  assumes "i < length (tasks s)" "at (tasks s ! i) = AwaitStartup"
  shows "step (Resume i (Some e)) s =
           \<lparr>self = self s, tasks = (tasks s)[i := (tasks s ! i)\<lparr>at := Rejected e\<rparr>]\<rparr>"
  using assms by (simp add: resume_def settle_def start_after_startup_def)

lemma resume_failure_shutdown:
  assumes "i < length (tasks s)" "at (tasks s ! i) = AwaitShutdown"
  shows "step (Resume i (Some e)) s =
           \<lparr>self = self s, tasks = (tasks s)[i := (tasks s ! i)\<lparr>at := Rejected e\<rparr>]\<rparr>"
  using assms by (simp add: resume_def settle_def stop_after_shutdown_def)

section \<open>Idempotent calls\<close>

text \<open>
  Claim C4: \<^verbatim>\<open>stop()\<close> called while the state is \<^verbatim>\<open>standby\<close> or \<^verbatim>\<open>stopping\<close>
  resolves with the current state and leaves the object as it is (no hook, no close, no
  log record, no transition); of two calls in immediate succession the second is never
  rejected, from any state; on a running server the second of two overlapping calls
  resolves with \<^verbatim>\<open>stopping\<close> and does nothing, and a call made after the first has
  completed resolves with \<^verbatim>\<open>standby\<close> and does nothing.
\<close>

theorem stop_idempotent:
  "(state (self s) = Standby \<or> state (self s) = Stopping \<longrightarrow>
      step (Call Stop) s =
        \<lparr>self = self s,
         tasks = tasks s @ [\<lparr>oper = Stop, at = Resolved (JStr (state_name (state (self s))))\<rparr>]\<rparr>)
   \<and> (\<forall>e. at (tasks (run [Call Stop, Call Stop] s) ! Suc (length (tasks s))) \<noteq> Rejected e)
   \<and> (state (self s) = Running \<longrightarrow>
        self (run [Call Stop, Call Stop] s) = self (step (Call Stop) s)
        \<and> at (tasks (run [Call Stop, Call Stop] s) ! Suc (length (tasks s)))
            = Resolved (JStr ''stopping''))
   \<and> (state (self s) = Running \<and> typeof (shutdown (self s)) = ''function'' \<longrightarrow>
        (let n = length (tasks s);
             s1 = run [Call Stop, Resume n None, Resume n None] s;
             s2 = step (Call Stop) s1
         in at (tasks s1 ! n) = Resolved (JStr ''standby'')
            \<and> state (self s1) = Standby
            \<and> self s2 = self s1
            \<and> at (tasks s2 ! Suc n) = Resolved (JStr ''standby'')))"
proof -
  obtain a ts where s: "s = \<lparr>self = a, tasks = ts\<rparr>" by (cases s)
  obtain p a' where first: "step (Call Stop) \<lparr>self = a, tasks = ts\<rparr>
      = \<lparr>self = a', tasks = ts @ [\<lparr>oper = Stop, at = p\<rparr>]\<rparr>" and a': "state a' \<noteq> Running"
    using call_stop_any [of a ts] by blast
  have second: "run [Call Stop, Call Stop] s =
           \<lparr>self = (if state a' = Starting then emit (TimerSet (JNum 1000)) a' else a'),
            tasks = (ts @ [\<lparr>oper = Stop, at = p\<rparr>])
               @ [\<lparr>oper = Stop, at = (if state a' = Starting then AwaitTimer
                     else Resolved (JStr (state_name (state a'))))\<rparr>]\<rparr>"
    unfolding run.simps s first call_stop_not_running [OF a'] by simp
  have 1: "state (self s) = Standby \<or> state (self s) = Stopping \<longrightarrow>
      step (Call Stop) s =
        \<lparr>self = self s,
         tasks = tasks s @ [\<lparr>oper = Stop, at = Resolved (JStr (state_name (state (self s))))\<rparr>]\<rparr>"
    using call_stop_idle [of a ts] by (simp add: s)
  have 2: "\<forall>e. at (tasks (run [Call Stop, Call Stop] s) ! Suc (length (tasks s))) \<noteq> Rejected e"
    unfolding second by (simp add: s nth_append)
  have 3: "state (self s) = Running \<longrightarrow>
        self (run [Call Stop, Call Stop] s) = self (step (Call Stop) s)
        \<and> at (tasks (run [Call Stop, Call Stop] s) ! Suc (length (tasks s)))
            = Resolved (JStr ''stopping'')"
  proof
    assume r: "state (self s) = Running"
    then have "state a' = Stopping"
      using first by (auto simp: s invoke_stop_def stop_enter_def call_hook_def emit_def Let_def
          split: if_splits)
    then show "self (run [Call Stop, Call Stop] s) = self (step (Call Stop) s)
        \<and> at (tasks (run [Call Stop, Call Stop] s) ! Suc (length (tasks s)))
            = Resolved (JStr ''stopping'')"
      unfolding second using first by (simp add: s nth_append)
  qed
  have 4: "state (self s) = Running \<and> typeof (shutdown (self s)) = ''function'' \<longrightarrow>
        (let n = length (tasks s);
             s1 = run [Call Stop, Resume n None, Resume n None] s;
             s2 = step (Call Stop) s1
         in at (tasks s1 ! n) = Resolved (JStr ''standby'')
            \<and> state (self s1) = Standby
            \<and> self s2 = self s1
            \<and> at (tasks s2 ! Suc n) = Resolved (JStr ''standby''))"
  proof
    assume "state (self s) = Running \<and> typeof (shutdown (self s)) = ''function''"
    then have h: "state a = Running" "typeof (shutdown a) = ''function''" by (simp_all add: s)
    show "let n = length (tasks s);
             s1 = run [Call Stop, Resume n None, Resume n None] s;
             s2 = step (Call Stop) s1
         in at (tasks s1 ! n) = Resolved (JStr ''standby'')
            \<and> state (self s1) = Standby
            \<and> self s2 = self s1
            \<and> at (tasks s2 ! Suc n) = Resolved (JStr ''standby'')"
    proof -
      let ?a1 = "a\<lparr>state := Standby, global := None,
               events := events a @ (if server a \<noteq> None then [CloseCalled] else [])
                           @ [HookCalled Shutdown, LogCall Info ''Stopped'' []]\<rparr>"
      let ?ts1 = "ts @ [\<lparr>oper = Stop, at = Resolved (JStr ''standby'')\<rparr>]"
      have r: "run [Call Stop, Resume (length ts) None, Resume (length ts) None]
                 \<lparr>self = a, tasks = ts\<rparr> = \<lparr>self = ?a1, tasks = ?ts1\<rparr>"
        by (rule stop_run [OF h])
      have "state ?a1 = Standby \<or> state ?a1 = Stopping" by simp
      from call_stop_idle [OF this, of ?ts1]
      have s2: "step (Call Stop) \<lparr>self = ?a1, tasks = ?ts1\<rparr> =
          \<lparr>self = ?a1, tasks = ?ts1 @ [\<lparr>oper = Stop, at = Resolved (JStr ''standby'')\<rparr>]\<rparr>"
        by simp
      show ?thesis
        unfolding Let_def s system.simps r s2 by (simp add: nth_append)
    qed
  qed
  from 1 2 3 4 show ?thesis by blast
qed

text \<open>A server made with no options: \<^verbatim>\<open>stop()\<close> before it is started, twice while it
  runs, and again after it has stopped.\<close>

theorem stop_idempotent_witness:
  "(let init = \<lparr>self = projr (constructor Map.empty None JUndefined), tasks = []\<rparr>;
        running = run [Call Start, Resume 0 None, Resume 0 None] init;
        s1 = run [Call Stop, Resume 1 None, Resume 1 None] running;
        s2 = step (Call Stop) s1
    in state (self init) = Standby
       \<and> self (step (Call Stop) init) = self init
       \<and> at (tasks (step (Call Stop) init) ! 0) = Resolved (JStr ''standby'')
       \<and> state (self running) = Running
       \<and> at (tasks (run [Call Stop, Call Stop] running) ! 2) = Resolved (JStr ''stopping'')
       \<and> self (run [Call Stop, Call Stop] running) = self (step (Call Stop) running)
       \<and> at (tasks s1 ! 1) = Resolved (JStr ''standby'')
       \<and> state (self s1) = Standby
       \<and> self s2 = self s1
       \<and> at (tasks s2 ! 2) = Resolved (JStr ''standby''))"
proof -
  define init where "init = \<lparr>self = projr (constructor Map.empty None JUndefined), tasks = []\<rparr>"
  define running where "running = run [Call Start, Resume 0 None, Resume 0 None] init"
  define s1 where "s1 = run [Call Stop, Resume 1 None, Resume 1 None] running"
  define s2 where "s2 = step (Call Stop) s1"
  have init: "state (self init) = Standby" "tasks init = []"
    by (simp_all add: init_def eval_defs)
  have running: "state (self running) = Running" "typeof (shutdown (self running)) = ''function''"
    "length (tasks running) = 1"
    by (simp_all add: running_def init_def eval_defs)
  note t = stop_idempotent [where s = init] stop_idempotent [where s = running]
  have i1: "step (Call Stop) init =
        \<lparr>self = self init,
         tasks = tasks init @ [\<lparr>oper = Stop, at = Resolved (JStr (state_name (state (self init))))\<rparr>]\<rparr>"
    using t(1) init(1) by blast
  have i2: "self (step (Call Stop) init) = self init"
    "at (tasks (step (Call Stop) init) ! 0) = Resolved (JStr ''standby'')"
    unfolding i1 using init by simp_all
  have r1: "self (run [Call Stop, Call Stop] running) = self (step (Call Stop) running)"
    "at (tasks (run [Call Stop, Call Stop] running) ! Suc (length (tasks running)))
            = Resolved (JStr ''stopping'')"
    using t(2) running(1) by blast+
  have r2: "let n = length (tasks running);
             s1 = run [Call Stop, Resume n None, Resume n None] running;
             s2 = step (Call Stop) s1
         in at (tasks s1 ! n) = Resolved (JStr ''standby'')
            \<and> state (self s1) = Standby
            \<and> self s2 = self s1
            \<and> at (tasks s2 ! Suc n) = Resolved (JStr ''standby'')"
    using t(2) running(1,2) by blast
  have r3: "at (tasks s1 ! 1) = Resolved (JStr ''standby'')" "state (self s1) = Standby"
    "self s2 = self s1" "at (tasks s2 ! 2) = Resolved (JStr ''standby'')"
    using r2 unfolding Let_def running(3) s2_def s1_def by (simp_all add: numeral_2_eq_2)
  have r4: "at (tasks (run [Call Stop, Call Stop] running) ! 2) = Resolved (JStr ''stopping'')"
    using r1(2) running(3) by (simp add: numeral_2_eq_2)
  show ?thesis
    unfolding Let_def
    using init(1) i2 running(1) r4 r1(1) r3
    unfolding s2_def s1_def running_def init_def
    by (intro conjI) assumption+
qed

text \<open>
  Claim C5, as stated, has two concurrent calls of \<^verbatim>\<open>start()\<close> result in exactly
  one listener bind. On the object made by \<^verbatim>\<open>new Nodecaf()\<close>, whose configuration
  has no port, two calls of \<^verbatim>\<open>start()\<close> made before the first one is resumed both
  resolve, the state is \<^verbatim>\<open>running\<close>, and no listener has been bound: line 118
  calls \<^verbatim>\<open>startServer\<close> only when \<^verbatim>\<open>conf.port\<close> is truthy.
\<close>

theorem start_twice_headless_counterexample:
  "state (self (run [Call Start, Call Start, Resume 0 None, Resume 0 None]
          \<lparr>self = projr (constructor Map.empty None JUndefined), tasks = []\<rparr>)) = Running
   \<and> at (tasks (run [Call Start, Call Start, Resume 0 None, Resume 0 None]
          \<lparr>self = projr (constructor Map.empty None JUndefined), tasks = []\<rparr>) ! 0)
       = Resolved (JStr ''running'')
   \<and> at (tasks (run [Call Start, Call Start, Resume 0 None, Resume 0 None]
          \<lparr>self = projr (constructor Map.empty None JUndefined), tasks = []\<rparr>) ! 1)
       = Resolved (JStr ''starting'')
   \<and> server (self (run [Call Start, Call Start, Resume 0 None, Resume 0 None]
          \<lparr>self = projr (constructor Map.empty None JUndefined), tasks = []\<rparr>)) = None
   \<and> binds (self (run [Call Start, Call Start, Resume 0 None, Resume 0 None]
          \<lparr>self = projr (constructor Map.empty None JUndefined), tasks = []\<rparr>)) = 0
   \<and> binds (self (run [Call Start, Call Start, Resume 0 None, Resume 0 None]
          \<lparr>self = projr (constructor Map.empty None JUndefined), tasks = []\<rparr>)) \<noteq> 1"
  by (simp add: eval_defs)

text \<open>
  Claim C5, amended: \<^verbatim>\<open>start()\<close> called while the state is \<^verbatim>\<open>running\<close> or
  \<^verbatim>\<open>starting\<close> resolves with the current state and leaves the object as it is (no
  timer, no hook, no listener); so when \<^verbatim>\<open>start()\<close> is called twice on a server at
  rest, however the two invocations and any further calls of \<^verbatim>\<open>start()\<close> are
  interleaved, the second call resolves with \<^verbatim>\<open>starting\<close>, at most one listener is
  bound, and once the state is \<^verbatim>\<open>running\<close> exactly one has been bound if a port is
  configured and none if no port is configured.
\<close>

theorem start_noop_single_bind:
  "(state (self s) = Running \<or> state (self s) = Starting \<longrightarrow>
      step (Call Start) s =
        \<lparr>self = self s,
         tasks = tasks s @ [\<lparr>oper = Start, at = Resolved (JStr (state_name (state (self s))))\<rparr>]\<rparr>)
   \<and> ((\<forall>t \<in> set (tasks s). settled (at t)) \<and> state (self s) = Standby
        \<and> (\<forall>x \<in> set xs. start_or_resume x) \<longrightarrow>
      at (tasks (run (Call Start # Call Start # xs) s) ! Suc (length (tasks s)))
          = Resolved (JStr ''starting'')
      \<and> binds (self (run (Call Start # Call Start # xs) s)) \<le> Suc (binds (self s))
      \<and> (state (self (run (Call Start # Call Start # xs) s)) = Running \<longrightarrow>
           binds (self (run (Call Start # Call Start # xs) s))
             = (if truthy (field (conf (self s)) ''port'') then Suc (binds (self s))
                else binds (self s))))"
proof (intro conjI impI)
  obtain a ts where s: "s = \<lparr>self = a, tasks = ts\<rparr>" by (cases s)
  assume "state (self s) = Running \<or> state (self s) = Starting"
  then show "step (Call Start) s =
        \<lparr>self = self s,
         tasks = tasks s @ [\<lparr>oper = Start, at = Resolved (JStr (state_name (state (self s))))\<rparr>]\<rparr>"
    by (auto simp: s invoke_start_def start_enter_def)
next
  assume h: "(\<forall>t \<in> set (tasks s). settled (at t)) \<and> state (self s) = Standby
        \<and> (\<forall>x \<in> set xs. start_or_resume x)"
  let ?xs = "Call Start # Call Start # xs"
  have all: "\<forall>x \<in> set ?xs. start_or_resume x" using h by simp
  have inv: "bound_once (binds (self s)) (conf (self s)) (run ?xs s)"
    using run_bound_once [OF bound_once_rest consistent_rest all] h by blast
  show "binds (self (run ?xs s)) \<le> Suc (binds (self s))"
    using inv by (simp add: bound_once_def)
  show "state (self (run ?xs s)) = Running \<Longrightarrow>
           binds (self (run ?xs s))
             = (if truthy (field (conf (self s)) ''port'') then Suc (binds (self s))
                else binds (self s))"
    using inv by (simp add: bound_once_def)
  show "at (tasks (run ?xs s) ! Suc (length (tasks s))) = Resolved (JStr ''starting'')"
  proof -
    obtain a ts where s: "s = \<lparr>self = a, tasks = ts\<rparr>" by (cases s)
    have st: "state a = Standby" using h s by simp
    let ?s2 = "run [Call Start, Call Start] s"
    have two: "Suc (length ts) < length (tasks ?s2)"
      "tasks ?s2 ! Suc (length ts) = \<lparr>oper = Start, at = Resolved (JStr ''starting'')\<rparr>"
      using st by (simp_all add: s invoke_start_def start_enter_def emit_def nth_append)
    have "tasks (run xs ?s2) ! Suc (length ts) = tasks ?s2 ! Suc (length ts)"
      using run_keeps_settled [OF two(1), of xs] two(2) by simp
    then show ?thesis using two(2) by (simp add: s)
  qed
qed

text \<open>A server configured with port 8080, \<^verbatim>\<open>start()\<close> called twice before the first
  call is resumed.\<close>

theorem start_noop_single_bind_witness:
  "(let init = \<lparr>self = projr (constructor Map.empty None
                                (JObj [(''conf'', JObj [(''port'', JNum 8080)])])),
                tasks = []\<rparr>;
        starting = step (Call Start) init;
        finished = run [Call Start, Call Start, Resume 0 None, Resume 0 None, Resume 0 None] init
    in state (self starting) = Starting
       \<and> self (step (Call Start) starting) = self starting
       \<and> tasks (step (Call Start) starting) ! 1
            = \<lparr>oper = Start, at = Resolved (JStr ''starting'')\<rparr>
       \<and> state (self finished) = Running
       \<and> at (tasks finished ! 1) = Resolved (JStr ''starting'')
       \<and> binds (self init) = 0
       \<and> binds (self finished) = 1)"
proof -
  define init where "init = \<lparr>self = projr (constructor Map.empty None
                                (JObj [(''conf'', JObj [(''port'', JNum 8080)])])),
                tasks = []\<rparr>"
  define starting where "starting = step (Call Start) init"
  define finished where
    "finished = run [Call Start, Call Start, Resume 0 None, Resume 0 None, Resume 0 None] init"
  have init: "\<forall>t \<in> set (tasks init). settled (at t)" "state (self init) = Standby"
    "binds (self init) = 0" "truthy (field (conf (self init)) ''port'')" "tasks init = []"
    by (simp_all add: init_def eval_defs)
  have starting: "state (self starting) = Starting" "length (tasks starting) = 1"
    by (simp_all add: starting_def init_def eval_defs)
  have again: "step (Call Start) starting =
        \<lparr>self = self starting,
         tasks = tasks starting
                  @ [\<lparr>oper = Start, at = Resolved (JStr (state_name (state (self starting))))\<rparr>]\<rparr>"
    using start_noop_single_bind [where s = starting] starting(1) by blast
  have a1: "self (step (Call Start) starting) = self starting"
    and a2: "tasks (step (Call Start) starting) ! 1 = \<lparr>oper = Start, at = Resolved (JStr ''starting'')\<rparr>"
    unfolding again using starting by (simp_all add: nth_append)
  have running: "state (self finished) = Running"
    by (simp add: finished_def init_def eval_defs)
  have xs: "\<forall>x \<in> set [Resume 0 None, Resume 0 None, Resume 0 None]. start_or_resume x" by simp
  from start_noop_single_bind [where s = init and xs = "[Resume 0 None, Resume 0 None, Resume 0 None]"]
    init(1,2) xs
  have "at (tasks finished ! Suc (length (tasks init))) = Resolved (JStr ''starting'')"
    and "state (self finished) = Running \<longrightarrow>
           binds (self finished)
             = (if truthy (field (conf (self init)) ''port'') then Suc (binds (self init))
                else binds (self init))"
    unfolding finished_def by blast+
  with running init have f: "at (tasks finished ! 1) = Resolved (JStr ''starting'')"
    "binds (self finished) = 1"
    by simp_all
  show ?thesis
    unfolding Let_def
    using starting(1) a1 a2 running f init(3)
    unfolding finished_def starting_def init_def
    by (intro conjI) assumption+
qed

section \<open>Failing hooks\<close>

text \<open>
  The invocation that awaits a hook. In every schedule, when the startup hook awaited
  by an invocation of \<^verbatim>\<open>start()\<close> fails, that invocation is rejected with the
  hook's error and the object is left as it was, its state being \<^verbatim>\<open>starting\<close>;
  when the shutdown hook awaited by an invocation of \<^verbatim>\<open>stop()\<close> fails, that
  invocation is rejected with the hook's error and the state stays \<^verbatim>\<open>stopping\<close>.
\<close>

lemma awaited_hook_failure:
  "(transitioning s0 = 0 \<and> s = run xs s0 \<and> i < length (tasks s)
      \<and> at (tasks s ! i) = AwaitStartup \<longrightarrow>
      state (self s) = Starting
      \<and> step (Resume i (Some e)) s =
          \<lparr>self = self s, tasks = (tasks s)[i := (tasks s ! i)\<lparr>at := Rejected e\<rparr>]\<rparr>)
   \<and> (transitioning s0 = 0 \<and> s = run xs s0 \<and> i < length (tasks s)
      \<and> at (tasks s ! i) = AwaitShutdown \<longrightarrow>
      state (self s) = Stopping
      \<and> step (Resume i (Some e)) s =
          \<lparr>self = self s, tasks = (tasks s)[i := (tasks s ! i)\<lparr>at := Rejected e\<rparr>]\<rparr>)"
proof (intro conjI impI)
  assume h: "transitioning s0 = 0 \<and> s = run xs s0 \<and> i < length (tasks s)
      \<and> at (tasks s ! i) = AwaitStartup"
  then have c: "consistent s" using run_consistent [OF consistent_quiet, of s0 xs] by blast
  from h have i: "i < length (tasks s)" and q: "at (tasks s ! i) = AwaitStartup" by blast+
  have p: "starting_work (at (tasks s ! i))" unfolding q by simp
  show "state (self s) = Starting" by (rule consistent_starting [OF c i p])
  show "step (Resume i (Some e)) s =
          \<lparr>self = self s, tasks = (tasks s)[i := (tasks s ! i)\<lparr>at := Rejected e\<rparr>]\<rparr>"
    by (rule resume_failure_startup [OF i q])
next
  assume h: "transitioning s0 = 0 \<and> s = run xs s0 \<and> i < length (tasks s)
      \<and> at (tasks s ! i) = AwaitShutdown"
  then have c: "consistent s" using run_consistent [OF consistent_quiet, of s0 xs] by blast
  from h have i: "i < length (tasks s)" and q: "at (tasks s ! i) = AwaitShutdown" by blast+
  have p: "stopping_work (at (tasks s ! i))" unfolding q by simp
  show "state (self s) = Stopping" by (rule consistent_stopping [OF c i p])
  show "step (Resume i (Some e)) s =
          \<lparr>self = self s, tasks = (tasks s)[i := (tasks s ! i)\<lparr>at := Rejected e\<rparr>]\<rparr>"
    by (rule resume_failure_shutdown [OF i q])
qed

text \<open>A server made with no options whose startup hook, and then whose shutdown hook,
  fails with the value \<^verbatim>\<open>'boom'\<close>.\<close>

lemma awaited_hook_failure_example:
  "(let init = \<lparr>self = projr (constructor Map.empty None JUndefined), tasks = []\<rparr>;
        hooked = run [Call Start, Resume 0 None] init;
        failed = step (Resume 0 (Some (Thrown (JStr ''boom'')))) hooked;
        closing = run [Call Start, Resume 0 None, Resume 0 None, Call Stop] init;
        broken = step (Resume 1 (Some (Thrown (JStr ''boom'')))) closing
    in at (tasks hooked ! 0) = AwaitStartup
       \<and> HookCalled Startup \<in> set (events (self hooked))
       \<and> state (self hooked) = Starting
       \<and> at (tasks failed ! 0) = Rejected (Thrown (JStr ''boom''))
       \<and> state (self failed) = Starting
       \<and> at (tasks closing ! 1) = AwaitShutdown
       \<and> HookCalled Shutdown \<in> set (events (self closing))
       \<and> state (self closing) = Stopping
       \<and> at (tasks broken ! 1) = Rejected (Thrown (JStr ''boom''))
       \<and> state (self broken) = Stopping)"
proof -
  define init where "init = \<lparr>self = projr (constructor Map.empty None JUndefined), tasks = []\<rparr>"
  define hooked where "hooked = run [Call Start, Resume 0 None] init"
  define failed where "failed = step (Resume 0 (Some (Thrown (JStr ''boom'')))) hooked"
  define closing where "closing = run [Call Start, Resume 0 None, Resume 0 None, Call Stop] init"
  define broken where "broken = step (Resume 1 (Some (Thrown (JStr ''boom'')))) closing"
  have quiet: "transitioning init = 0" by (simp add: init_def transitioning_def)
  have hooked: "0 < length (tasks hooked)" "at (tasks hooked ! 0) = AwaitStartup"
    "HookCalled Startup \<in> set (events (self hooked))"
    by (simp_all add: hooked_def init_def eval_defs)
  have closing: "1 < length (tasks closing)" "at (tasks closing ! 1) = AwaitShutdown"
    "HookCalled Shutdown \<in> set (events (self closing))"
    by (simp_all add: closing_def init_def eval_defs)
  from awaited_hook_failure [where ?s0.0 = init and s = hooked and i = 0
      and xs = "[Call Start, Resume 0 None]" and e = "Thrown (JStr ''boom'')"]
    quiet hooked
  have h1: "state (self hooked) = Starting"
    and h2: "failed = \<lparr>self = self hooked,
         tasks = (tasks hooked)[0 := (tasks hooked ! 0)\<lparr>at := Rejected (Thrown (JStr ''boom''))\<rparr>]\<rparr>"
    unfolding failed_def hooked_def by blast+
  from awaited_hook_failure [where ?s0.0 = init and s = closing and i = 1
      and xs = "[Call Start, Resume 0 None, Resume 0 None, Call Stop]"
      and e = "Thrown (JStr ''boom'')"]
    quiet closing
  have c1: "state (self closing) = Stopping"
    and c2: "broken = \<lparr>self = self closing,
         tasks = (tasks closing)[1 := (tasks closing ! 1)\<lparr>at := Rejected (Thrown (JStr ''boom''))\<rparr>]\<rparr>"
    unfolding broken_def closing_def by blast+
  have f: "at (tasks failed ! 0) = Rejected (Thrown (JStr ''boom''))" "state (self failed) = Starting"
    unfolding h2 using hooked(1) h1 by simp_all
  have b: "at (tasks broken ! 1) = Rejected (Thrown (JStr ''boom''))" "state (self broken) = Stopping"
    unfolding c2 using closing(1) c1 by simp_all
  show ?thesis
    unfolding Let_def
    using hooked(2,3) h1 f closing(2,3) c1 b
    unfolding broken_def closing_def failed_def hooked_def init_def
    by (intro conjI) assumption+
qed

text \<open>
  The invocation that polls. \<^verbatim>\<open>retryShortly\<close> (line 31) waits for the retried
  call with \<^verbatim>\<open>fn().then(done)\<close>, which hands on its value and nothing else: once the
  retried call is rejected, no step settles the caller.
\<close>

lemma step_keeps_unanswered:
  assumes "i < length (tasks s)" "at (tasks s ! i) = AwaitRetried k"
    "k < length (tasks s)" "at (tasks s ! k) = Rejected e"
  shows "i < length (tasks (step x s)) \<and> tasks (step x s) ! i = tasks s ! i
         \<and> k < length (tasks (step x s)) \<and> tasks (step x s) ! k = tasks s ! k"
proof -
  have k: "k < length (tasks (step x s)) \<and> tasks (step x s) ! k = tasks s ! k"
    using step_keeps_settled [OF assms(3), of x] assms(4) by simp
  have i: "i < length (tasks (step x s)) \<and> tasks (step x s) ! i = tasks s ! i"
  proof (cases x)
    case (Call g)
    then show ?thesis using assms(1) by (simp add: invoke_keeps)
  next
    case (Resume j f)
    show ?thesis
    proof (cases "j = i")
      case True
      then show ?thesis using assms Resume by (simp add: resume_def retry_done_def)
    next
      case False
      then show ?thesis using assms(1) Resume by (simp add: resume_keeps_others)
    qed
  qed
  from i k show ?thesis by simp
qed

lemma run_keeps_unanswered:
  "i < length (tasks s) \<Longrightarrow> at (tasks s ! i) = AwaitRetried k
     \<Longrightarrow> k < length (tasks s) \<Longrightarrow> at (tasks s ! k) = Rejected e
     \<Longrightarrow> at (tasks (run xs s) ! i) = AwaitRetried k"
proof (induction xs arbitrary: s)
  case Nil
  then show ?case by simp
next
  case (Cons x xs)
  from step_keeps_unanswered [OF Cons.prems, of x]
  have "i < length (tasks (step x s))" "at (tasks (step x s) ! i) = AwaitRetried k"
    "k < length (tasks (step x s))" "at (tasks (step x s) ! k) = Rejected e"
    using Cons.prems by simp_all
  from Cons.IH [OF this] show ?case by simp
qed

text \<open>
  Claim C6 says that a failure of the startup or shutdown hook makes the lifecycle
  operation fail with that error. It does for the invocation that awaits the hook
  (above), and it does not for a call that polls. A server whose startup hook fails with
  \<^verbatim>\<open>'boom'\<close> the second time it runs: the server is started (invocation 0);
  \<^verbatim>\<open>stop()\<close> is called (1) and, while the state is \<^verbatim>\<open>stopping\<close>, \<^verbatim>\<open>start()\<close>
  (2), which sets its timer; the stop completes; the timer fires and calls
  \<^verbatim>\<open>start()\<close> again (3), whose startup hook fails. Invocation 3 is rejected with
  \<^verbatim>\<open>'boom'\<close> and the state stays \<^verbatim>\<open>starting\<close>, but invocation 2, the call the
  user made, is neither rejected nor resolved, then or after any further steps.
\<close>

theorem polling_start_never_settles:
  "(let s = run [Call Start, Resume 0 None, Resume 0 None, Call Stop, Call Start,
                 Resume 1 None, Resume 1 None, Resume 2 None, Resume 3 None,
                 Resume 3 (Some (Thrown (JStr ''boom'')))]
              \<lparr>self = projr (constructor Map.empty None
                               (JObj [(''startup'', JFun ''startup'' False)])), tasks = []\<rparr>
    in oper (tasks s ! 3) = Start
       \<and> at (tasks s ! 3) = Rejected (Thrown (JStr ''boom''))
       \<and> state (self s) = Starting
       \<and> oper (tasks s ! 2) = Start
       \<and> at (tasks s ! 2) = AwaitRetried 3
       \<and> (\<forall>xs. at (tasks (run xs s) ! 2) = AwaitRetried 3))"
proof -
  define s where "s = run [Call Start, Resume 0 None, Resume 0 None, Call Stop, Call Start,
                 Resume 1 None, Resume 1 None, Resume 2 None, Resume 3 None,
                 Resume 3 (Some (Thrown (JStr ''boom'')))]
              \<lparr>self = projr (constructor Map.empty None
                               (JObj [(''startup'', JFun ''startup'' False)])), tasks = []\<rparr>"
  have e: "length (tasks s) = 4" "oper (tasks s ! 3) = Start"
    "at (tasks s ! 3) = Rejected (Thrown (JStr ''boom''))" "state (self s) = Starting"
    "oper (tasks s ! 2) = Start" "at (tasks s ! 2) = AwaitRetried 3"
    by (simp_all add: s_def eval_defs)
  have "at (tasks (run xs s) ! 2) = AwaitRetried 3" for xs
    by (rule run_keeps_unanswered [where k = 3 and e = "Thrown (JStr ''boom'')"])
       (simp_all add: e)
  then have f: "\<forall>xs. at (tasks (run xs s) ! 2) = AwaitRetried 3" by blast
  show ?thesis
    unfolding Let_def
    using e(2-6) f
    unfolding s_def
    by (intro conjI) assumption+
qed

section \<open>Stopping a server without a listener\<close>

text \<open>
  Claim C10: \<^verbatim>\<open>stop()\<close> on a running server that has no listener, the shutdown hook
  succeeding, is not rejected: it invokes the shutdown hook, closes nothing, deletes
  \<^verbatim>\<open>global\<close>, logs \<^verbatim>\<open>Stopped\<close> and resolves with \<^verbatim>\<open>standby\<close>; and a server
  started without a configured port is such a server.
\<close>

theorem stop_headless:
  "(state a = Running \<and> server a = None \<and> typeof (shutdown a) = ''function'' \<longrightarrow>
      run [Call Stop, Resume (length ts) None, Resume (length ts) None] \<lparr>self = a, tasks = ts\<rparr>
        = \<lparr>self = a\<lparr>state := Standby, global := None,
                     events := events a @ [HookCalled Shutdown, LogCall Info ''Stopped'' []]\<rparr>,
           tasks = ts @ [\<lparr>oper = Stop, at = Resolved (JStr ''standby'')\<rparr>]\<rparr>)
   \<and> (state a = Standby \<and> server a = None \<and> \<not> truthy (field (conf a) ''port'')
        \<and> typeof (startup a) = ''function'' \<and> typeof (shutdown a) = ''function'' \<longrightarrow>
      (let n = length ts;
           s1 = run [Call Start, Resume n None, Resume n None] \<lparr>self = a, tasks = ts\<rparr>;
           s2 = run [Call Stop, Resume (Suc n) None, Resume (Suc n) None] s1
       in state (self s1) = Running \<and> server (self s1) = None \<and> binds (self s1) = binds a
          \<and> at (tasks s2 ! Suc n) = Resolved (JStr ''standby'')
          \<and> state (self s2) = Standby \<and> global (self s2) = None
          \<and> events (self s2)
               = events (self s1) @ [HookCalled Shutdown, LogCall Info ''Stopped'' []]))"
proof (intro conjI impI)
  assume "state a = Running \<and> server a = None \<and> typeof (shutdown a) = ''function''"
  then have h: "state a = Running" "typeof (shutdown a) = ''function''" and n: "server a = None"
    by simp_all
  show "run [Call Stop, Resume (length ts) None, Resume (length ts) None] \<lparr>self = a, tasks = ts\<rparr>
        = \<lparr>self = a\<lparr>state := Standby, global := None,
                     events := events a @ [HookCalled Shutdown, LogCall Info ''Stopped'' []]\<rparr>,
           tasks = ts @ [\<lparr>oper = Stop, at = Resolved (JStr ''standby'')\<rparr>]\<rparr>"
    unfolding stop_run [OF h] using n by simp
next
  assume "state a = Standby \<and> server a = None \<and> \<not> truthy (field (conf a) ''port'')
        \<and> typeof (startup a) = ''function'' \<and> typeof (shutdown a) = ''function''"
  then have h: "state a = Standby" "\<not> truthy (field (conf a) ''port'')"
    "typeof (startup a) = ''function''" and n: "server a = None"
    and sh: "typeof (shutdown a) = ''function''"
    by simp_all
  from start_run_headless [OF h, of ts] obtain a1 where
    r1: "run [Call Start, Resume (length ts) None, Resume (length ts) None] \<lparr>self = a, tasks = ts\<rparr>
              = \<lparr>self = a1, tasks = ts @ [\<lparr>oper = Start, at = Resolved (JStr ''running'')\<rparr>]\<rparr>"
    and a1: "state a1 = Running" "server a1 = server a" "shutdown a1 = shutdown a"
      "binds a1 = binds a"
    by blast
  let ?ts1 = "ts @ [\<lparr>oper = Start, at = Resolved (JStr ''running'')\<rparr>]"
  have h1: "state a1 = Running" "typeof (shutdown a1) = ''function''" using a1 sh by simp_all
  have l: "Suc (length ts) = length ?ts1" by simp
  have r2: "run [Call Stop, Resume (Suc (length ts)) None, Resume (Suc (length ts)) None]
              \<lparr>self = a1, tasks = ?ts1\<rparr>
     = \<lparr>self = a1\<lparr>state := Standby, global := None,
               events := events a1 @ (if server a1 \<noteq> None then [CloseCalled] else [])
                           @ [HookCalled Shutdown, LogCall Info ''Stopped'' []]\<rparr>,
      tasks = ?ts1 @ [\<lparr>oper = Stop, at = Resolved (JStr ''standby'')\<rparr>]\<rparr>"
    unfolding l by (rule stop_run [OF h1])
  show "let n = length ts;
           s1 = run [Call Start, Resume n None, Resume n None] \<lparr>self = a, tasks = ts\<rparr>;
           s2 = run [Call Stop, Resume (Suc n) None, Resume (Suc n) None] s1
       in state (self s1) = Running \<and> server (self s1) = None \<and> binds (self s1) = binds a
          \<and> at (tasks s2 ! Suc n) = Resolved (JStr ''standby'')
          \<and> state (self s2) = Standby \<and> global (self s2) = None
          \<and> events (self s2)
               = events (self s1) @ [HookCalled Shutdown, LogCall Info ''Stopped'' []]"
    unfolding Let_def r1 r2 using a1 n by (simp add: nth_append)
qed

text \<open>A server made with no options, started and stopped.\<close>

theorem stop_headless_witness:
  "(let init = \<lparr>self = projr (constructor Map.empty None JUndefined), tasks = []\<rparr>;
        s1 = run [Call Start, Resume 0 None, Resume 0 None] init;
        s2 = run [Call Stop, Resume 1 None, Resume 1 None] s1
    in state (self init) = Standby \<and> server (self init) = None
       \<and> field (conf (self init)) ''port'' = JUndefined
       \<and> state (self s1) = Running \<and> server (self s1) = None \<and> binds (self s1) = 0
       \<and> at (tasks s2 ! 1) = Resolved (JStr ''standby'')
       \<and> state (self s2) = Standby \<and> global (self s2) = None
       \<and> events (self s2) = events (self s1) @ [HookCalled Shutdown, LogCall Info ''Stopped'' []]
       \<and> s2 = \<lparr>self = (self s1)\<lparr>state := Standby, global := None,
                     events := events (self s1) @ [HookCalled Shutdown, LogCall Info ''Stopped'' []]\<rparr>,
               tasks = tasks s1 @ [\<lparr>oper = Stop, at = Resolved (JStr ''standby'')\<rparr>]\<rparr>)"
proof -
  define a where "a = projr (constructor Map.empty None JUndefined)"
  define s1 where "s1 = run [Call Start, Resume 0 None, Resume 0 None] \<lparr>self = a, tasks = []\<rparr>"
  define s2 where "s2 = run [Call Stop, Resume 1 None, Resume 1 None] s1"
  have a: "state a = Standby" "server a = None" "\<not> truthy (field (conf a) ''port'')"
    "typeof (startup a) = ''function''" "typeof (shutdown a) = ''function''"
    "field (conf a) ''port'' = JUndefined" "binds a = 0"
    by (simp_all add: a_def eval_defs)
  have full: "let n = length ([] :: task list);
           s1 = run [Call Start, Resume n None, Resume n None] \<lparr>self = a, tasks = []\<rparr>;
           s2 = run [Call Stop, Resume (Suc n) None, Resume (Suc n) None] s1
       in state (self s1) = Running \<and> server (self s1) = None \<and> binds (self s1) = binds a
          \<and> at (tasks s2 ! Suc n) = Resolved (JStr ''standby'')
          \<and> state (self s2) = Standby \<and> global (self s2) = None
          \<and> events (self s2)
               = events (self s1) @ [HookCalled Shutdown, LogCall Info ''Stopped'' []]"
    using stop_headless [where a = a and ts = "[]"] a by blast
  then have c: "state (self s1) = Running" "server (self s1) = None" "binds (self s1) = 0"
    "at (tasks s2 ! 1) = Resolved (JStr ''standby'')"
    "state (self s2) = Standby" "global (self s2) = None"
    "events (self s2) = events (self s1) @ [HookCalled Shutdown, LogCall Info ''Stopped'' []]"
    unfolding Let_def s2_def s1_def using a(7) by simp_all
  have sh: "typeof (shutdown (self s1)) = ''function''" "length (tasks s1) = 1"
    by (simp_all add: s1_def a_def eval_defs)
  obtain a1 ts1 where s1eq: "s1 = \<lparr>self = a1, tasks = ts1\<rparr>" by (cases s1)
  have a1: "state a1 = Running" "server a1 = None" "typeof (shutdown a1) = ''function''"
    "length ts1 = 1"
    using c(1,2) sh by (simp_all add: s1eq)
  have "run [Call Stop, Resume (length ts1) None, Resume (length ts1) None]
          \<lparr>self = a1, tasks = ts1\<rparr>
        = \<lparr>self = a1\<lparr>state := Standby, global := None,
                     events := events a1 @ [HookCalled Shutdown, LogCall Info ''Stopped'' []]\<rparr>,
           tasks = ts1 @ [\<lparr>oper = Stop, at = Resolved (JStr ''standby'')\<rparr>]\<rparr>"
    using stop_headless [where a = a1 and ts = ts1] a1(1,2,3) by blast
  then have eq: "s2 = \<lparr>self = (self s1)\<lparr>state := Standby, global := None,
                     events := events (self s1) @ [HookCalled Shutdown, LogCall Info ''Stopped'' []]\<rparr>,
               tasks = tasks s1 @ [\<lparr>oper = Stop, at = Resolved (JStr ''standby'')\<rparr>]\<rparr>"
    unfolding s2_def s1eq a1(4) by simp
  show ?thesis
    unfolding Let_def system.select_convs
    using a(1,2,6) c eq
    unfolding s2_def s1_def a_def
    by (intro conjI) assumption+
qed

section \<open>Layering\<close>

lemma field_update_other: "k \<noteq> k' \<Longrightarrow> field (AList.update k' v c) k = field c k"
  by (simp add: field_def update_conv')

lemma field_update_same: "field (AList.update k v c) k = v"
  by (simp add: field_def update_conv')

lemma field_merge:
  "field (AList.merge base kvs) k = (case map_of kvs k of Some v \<Rightarrow> v | None \<Rightarrow> field base k)"
  by (simp add: field_def merge_conv' map_add_def split: option.split)

lemma truthy_field_key: "truthy (field c k) \<Longrightarrow> k \<in> fst ` set c"
  by (auto simp: field_def split: option.splits dest: map_of_SomeD intro: rev_image_eqI)

text \<open>What \<^verbatim>\<open>setup\<close> does with an object, whether or not it throws.\<close>

lemma setup_app_object:
  assumes "setup_app (JObj kvs) a = (e, a')"
  shows "state a' = state a" and "server a' = server a"
    and "startup a' = startup a" and "shutdown a' = shutdown a"
    and "name a' = name a" and "version a' = version a"
    and "alwaysRebuildAPI a' = alwaysRebuildAPI a"
    and "events a' = events a @ Configured (JObj kvs) # (if e = None then [LoggerMade (log a')] else [])"
    and "\<forall>k. k \<noteq> ''log'' \<longrightarrow>
           field (conf a') k = (case map_of kvs k of Some v \<Rightarrow> v | None \<Rightarrow> field (conf a) k)"
    and "fst ` set (conf a') = fst ` set (conf a) \<union> fst ` set kvs"
proof -
  let ?c = "AList.merge (conf a) kvs"
  let ?a1 = "a\<lparr>events := events a @ [Configured (JObj kvs)], conf := ?c, cors := field ?c ''cors''\<rparr>"
  have cases: "(e \<noteq> None \<and> a' = ?a1)
      \<or> (e = None \<and> a' = ?a1\<lparr>log := field ?c ''log'',
                events := events ?a1 @ [LoggerMade (field ?c ''log'')]\<rparr>)
      \<or> (\<exists>l. e = None \<and> truthy (field ?c ''log'')
             \<and> a' = ?a1\<lparr>conf := AList.update ''log'' l ?c, log := l,
                       events := events ?a1 @ [LoggerMade l]\<rparr>)"
    using assms
    by (auto simp: setup_app_def confort_def js_or_def emit_def Let_def
        split: if_splits sum.splits)
  have keys: "truthy (field ?c ''log'') \<Longrightarrow>
      fst ` set (AList.update ''log'' l ?c) = fst ` set (conf a) \<union> fst ` set kvs" for l
    using truthy_field_key [of ?c "''log''"] by (auto simp: dom_update dom_merge)
  show "state a' = state a" and "server a' = server a"
    and "startup a' = startup a" and "shutdown a' = shutdown a"
    and "name a' = name a" and "version a' = version a"
    and "alwaysRebuildAPI a' = alwaysRebuildAPI a"
    and "events a' = events a @ Configured (JObj kvs) # (if e = None then [LoggerMade (log a')] else [])"
    using cases by auto
  have conf_cases: "conf a' = ?c
      \<or> (\<exists>l. truthy (field ?c ''log'') \<and> conf a' = AList.update ''log'' l ?c)"
    using cases by auto
  then show "\<forall>k. k \<noteq> ''log'' \<longrightarrow>
           field (conf a') k = (case map_of kvs k of Some v \<Rightarrow> v | None \<Rightarrow> field (conf a) k)"
  proof (elim disjE exE conjE)
    assume "conf a' = ?c"
    then show ?thesis by (simp add: field_merge)
  next
    fix l assume "conf a' = AList.update ''log'' l ?c"
    then show ?thesis by (simp add: field_update_other field_merge)
  qed
  from conf_cases show "fst ` set (conf a') = fst ` set (conf a) \<union> fst ` set kvs"
  proof (elim disjE exE conjE)
    assume "conf a' = ?c"
    then show ?thesis by (simp add: dom_merge)
  next
    fix l assume "truthy (field ?c ''log'')" "conf a' = AList.update ''log'' l ?c"
    then show ?thesis using keys by simp
  qed
qed

lemma constructor_conf:
  assumes "constructor fs pkg (JObj opts) = Inr a" and "field opts ''conf'' = JObj kvs"
  shows "state a = Standby" and "server a = None" and "typeof (startup a) = ''function''"
    and "\<forall>k. k \<noteq> ''log'' \<longrightarrow> field (conf a) k = field kvs k"
proof -
  obtain v where v: "validateOpts pkg (JObj opts) = Inr v"
    using assms(1) by (auto simp: constructor_def Let_def split: sum.splits)
  have fn: "typeof (v_startup v) = ''function''"
    using v by (auto simp: validateOpts_def Let_def split: if_splits sum.splits)
  let ?a0 = "\<lparr>apiSpec = v_apiSpec v, startup = v_startup v, shutdown = v_shutdown v,
                    serverBuilder = v_serverBuilder v, name = v_name v, version = v_version v,
                    shouldParseBody = js_or (field opts ''shouldParseBody'')
                       (JBool (typeof (field opts ''shouldParseBody'') = ''undefined'')),
                    alwaysRebuildAPI = js_or (field opts ''alwaysRebuildAPI'') (JBool False),
                    conf = [], state = Standby, cors = JUndefined, log = JUndefined,
                    api = None, global = None, server = None, files = fs, events = []\<rparr>"
  obtain a1 where s: "setup_app (JObj kvs) ?a0 = (None, a1)"
    and a: "a = a1 \<or> a = emit ApiBuilt (a1\<lparr>api := Some (apiSpec a1)\<rparr>)"
    using assms v
    by (auto simp: constructor_def Let_def split: sum.splits option.splits prod.splits if_splits)
  note p = setup_app_object [OF s]
  show "state a = Standby" and "server a = None" and "typeof (startup a) = ''function''"
    using a p fn by (auto simp: emit_def)
  have "\<forall>k. k \<noteq> ''log'' \<longrightarrow> field (conf a1) k = field kvs k"
    using p(9) by (simp add: field_def split: option.split)
  then show "\<forall>k. k \<noteq> ''log'' \<longrightarrow> field (conf a) k = field kvs k"
    using a by (auto simp: emit_def)
qed

section \<open>The default port\<close>

lemma load_ssl_present: "load_ssl disk sslc = Inr ssl \<Longrightarrow> (ssl \<noteq> None) = truthy sslc"
  by (auto simp: load_ssl_def split: if_splits sum.splits)

text \<open>The object the second class makes from a configuration without a port.\<close>

lemma constructor_nodecaf_object:
  assumes "constructor_nodecaf fs disk pkg (JObj kvs) = Inr n" and "map_of kvs ''port'' = None"
  shows "field (n_conf n) ''port'' = JNum (if truthy (field kvs ''ssl'') then 443 else 80)"
    and "(n_ssl n \<noteq> None) = truthy (field kvs ''ssl'')"
    and "\<not> n_running n" and "n_stopped n = Some Settled" and "n_startup n = noop"
    and "n_alwaysRebuildAPI n = JUndefined" and "n_events n = []" and "n_server n = None"
proof -
  let ?c = "AList.merge [] kvs"
  have f: "field ?c k = field kvs k" for k
    unfolding field_merge by (simp add: field_def split: option.split)
  obtain ssl where l: "load_ssl disk (field kvs ''ssl'') = Inr ssl"
    and n: "n = \<lparr>n_conf = AList.update ''port'' (JNum (if ssl \<noteq> None then 443 else 80)) ?c,
                 n_ssl = ssl, n_alwaysRebuildAPI = JUndefined, n_api_runs = 0,
                 n_name = fst (findPkgInfo pkg), n_version = snd (findPkgInfo pkg),
                 n_startup = noop, n_running = False, n_stopped = Some Settled,
                 n_server = None, n_events = []\<rparr>"
    using assms f [of "''port''"] f [of "''ssl''"]
    by (auto simp: constructor_nodecaf_def setup_nodecaf_def confort_def js_or_def field_def
        split: sum.splits)
  note p = load_ssl_present [OF l]
  show "field (n_conf n) ''port'' = JNum (if truthy (field kvs ''ssl'') then 443 else 80)"
    using p by (simp add: n field_update_same)
  show "(n_ssl n \<noteq> None) = truthy (field kvs ''ssl'')" using p by (simp add: n)
  show "\<not> n_running n" and "n_stopped n = Some Settled" and "n_startup n = noop"
    and "n_alwaysRebuildAPI n = JUndefined" and "n_events n = []" and "n_server n = None"
    by (simp_all add: n)
qed

text \<open>Its \<^verbatim>\<open>start()\<close>, the handler being \<^verbatim>\<open>noop\<close> and the listener coming up.\<close>

lemma start_nodecaf_noop:
  assumes "\<not> n_running n" and "n_stopped n \<noteq> Some Pending" and "n_startup n = noop"
    and "\<not> truthy (n_alwaysRebuildAPI n)"
  shows "start_nodecaf None Listens n =
           (ReturnedThis,
            n\<lparr>n_running := True,
              n_server := Some \<lparr>port = field (n_conf n) ''port'', encrypted = (n_ssl n \<noteq> None)\<rparr>,
              n_events := n_events n
                 @ [HookCalled Startup, Listen (field (n_conf n) ''port'') (n_ssl n \<noteq> None),
                    LogCall Info ''%s v%s is ready on port %s''
                      [n_name n, n_version n, field (n_conf n) ''port'']],
              n_stopped := None\<rparr>)"
  using assms by (simp add: start_nodecaf_def noop_def n_emit_def Let_def)

text \<open>
  Claim C2, as stated, gives a server whose configuration has no \<^verbatim>\<open>port\<close> the
  effective port 80 and a listener on it. The object made by \<^verbatim>\<open>new Nodecaf()\<close> of the
  class with the lifecycle states has no \<^verbatim>\<open>port\<close> in its configuration; its
  \<^verbatim>\<open>start()\<close>, run to the end, resolves with \<^verbatim>\<open>running\<close> and has bound no
  listener: line 118 calls \<^verbatim>\<open>startServer\<close> only when \<^verbatim>\<open>conf.port\<close> is truthy.
\<close>

theorem start_default_port_counterexample:
  "field (conf (projr (constructor Map.empty None JUndefined))) ''port'' = JUndefined
   \<and> field (conf (projr (constructor Map.empty None JUndefined))) ''port'' \<noteq> JNum 80
   \<and> at (tasks (run [Call Start, Resume 0 None, Resume 0 None]
          \<lparr>self = projr (constructor Map.empty None JUndefined), tasks = []\<rparr>) ! 0)
       = Resolved (JStr ''running'')
   \<and> state (self (run [Call Start, Resume 0 None, Resume 0 None]
          \<lparr>self = projr (constructor Map.empty None JUndefined), tasks = []\<rparr>)) = Running
   \<and> server (self (run [Call Start, Resume 0 None, Resume 0 None]
          \<lparr>self = projr (constructor Map.empty None JUndefined), tasks = []\<rparr>)) = None
   \<and> binds (self (run [Call Start, Resume 0 None, Resume 0 None]
          \<lparr>self = projr (constructor Map.empty None JUndefined), tasks = []\<rparr>)) = 0"
  by (simp add: eval_defs)

text \<open>
  Claim C2, amended: for every configuration that does not set \<^verbatim>\<open>port\<close>, the second
  class of the file (lines 199-354) gives \<^verbatim>\<open>conf.port\<close> the default 443 when key and
  certificate are configured and 80 otherwise, and its \<^verbatim>\<open>start()\<close> binds a listener
  on that port (the startup handler succeeding and the listener coming up); the class
  with the lifecycle states (lines 60-165) gives the port no default: the constructed
  object has no \<^verbatim>\<open>conf.port\<close>, and its \<^verbatim>\<open>start()\<close> binds no listener, logs
  \<^verbatim>\<open>%s v%s has started\<close> and reaches \<^verbatim>\<open>running\<close>.
\<close>

theorem port_default:
  "(constructor_nodecaf fs disk pkg (JObj kvs) = Inr n \<and> map_of kvs ''port'' = None \<longrightarrow>
      field (n_conf n) ''port'' = JNum (if truthy (field kvs ''ssl'') then 443 else 80)
      \<and> (\<exists>n'. start_nodecaf None Listens n = (ReturnedThis, n')
            \<and> n_server n' = Some \<lparr>port = JNum (if truthy (field kvs ''ssl'') then 443 else 80),
                                   encrypted = truthy (field kvs ''ssl'')\<rparr>
            \<and> filter is_listen (n_events n')
                = [Listen (JNum (if truthy (field kvs ''ssl'') then 443 else 80))
                     (truthy (field kvs ''ssl''))]))
   \<and> (constructor fs pkg (JObj opts) = Inr a \<and> field opts ''conf'' = JObj kvs
      \<and> map_of kvs ''port'' = None \<longrightarrow>
      field (conf a) ''port'' = JUndefined \<and> state a = Standby \<and> server a = None)
   \<and> (state a = Standby \<and> \<not> truthy (field (conf a) ''port'')
        \<and> typeof (startup a) = ''function'' \<longrightarrow>
      (\<exists>a1. run [Call Start, Resume (length ts) None, Resume (length ts) None]
                \<lparr>self = a, tasks = ts\<rparr>
              = \<lparr>self = a1, tasks = ts @ [\<lparr>oper = Start, at = Resolved (JStr ''running'')\<rparr>]\<rparr>
            \<and> state a1 = Running \<and> server a1 = server a \<and> binds a1 = binds a
            \<and> conf a1 = conf a
            \<and> last (events a1) = LogCall Info ''%s v%s has started'' [name a, version a]))"
proof (intro conjI impI)
  assume "constructor_nodecaf fs disk pkg (JObj kvs) = Inr n \<and> map_of kvs ''port'' = None"
  then have c: "constructor_nodecaf fs disk pkg (JObj kvs) = Inr n" "map_of kvs ''port'' = None"
    by blast+
  note o = constructor_nodecaf_object [OF c]
  show "field (n_conf n) ''port'' = JNum (if truthy (field kvs ''ssl'') then 443 else 80)"
    by (rule o(1))
  have u: "\<not> truthy (n_alwaysRebuildAPI n)" "n_stopped n \<noteq> Some Pending"
    using o(4,6) by simp_all
  note r = start_nodecaf_noop [OF o(3) u(2) o(5) u(1)]
  show "\<exists>n'. start_nodecaf None Listens n = (ReturnedThis, n')
            \<and> n_server n' = Some \<lparr>port = JNum (if truthy (field kvs ''ssl'') then 443 else 80),
                                   encrypted = truthy (field kvs ''ssl'')\<rparr>
            \<and> filter is_listen (n_events n')
                = [Listen (JNum (if truthy (field kvs ''ssl'') then 443 else 80))
                     (truthy (field kvs ''ssl''))]"
    unfolding r using o(1,2,7) by simp
next
  assume h: "constructor fs pkg (JObj opts) = Inr a \<and> field opts ''conf'' = JObj kvs
      \<and> map_of kvs ''port'' = None"
  then have c: "constructor fs pkg (JObj opts) = Inr a" "field opts ''conf'' = JObj kvs"
    and k: "map_of kvs ''port'' = None" by blast+
  note p = constructor_conf [OF c]
  show "state a = Standby" by (rule p(1))
  show "server a = None" by (rule p(2))
  have "field (conf a) ''port'' = field kvs ''port''" using p(4) by simp
  then show "field (conf a) ''port'' = JUndefined" using k by (simp add: field_def)
next
  assume "state a = Standby \<and> \<not> truthy (field (conf a) ''port'')
        \<and> typeof (startup a) = ''function''"
  then have h: "state a = Standby" "\<not> truthy (field (conf a) ''port'')"
    "typeof (startup a) = ''function''" by blast+
  from start_run_headless [OF h, of ts]
  show "\<exists>a1. run [Call Start, Resume (length ts) None, Resume (length ts) None]
                \<lparr>self = a, tasks = ts\<rparr>
              = \<lparr>self = a1, tasks = ts @ [\<lparr>oper = Start, at = Resolved (JStr ''running'')\<rparr>]\<rparr>
            \<and> state a1 = Running \<and> server a1 = server a \<and> binds a1 = binds a
            \<and> conf a1 = conf a
            \<and> last (events a1) = LogCall Info ''%s v%s has started'' [name a, version a]"
    by blast
qed

text \<open>
  The second class made with key and certificate, and made with an empty configuration,
  each started; and an object of the class with the lifecycle states made with a
  configuration that sets only \<^verbatim>\<open>delay\<close>, started.
\<close>

theorem port_default_witness:
  "(let secure = projr (constructor_nodecaf Map.empty [''k.pem'' \<mapsto> ''K'', ''c.pem'' \<mapsto> ''C''] None
                   (JObj [(''ssl'', JObj [(''key'', JStr ''k.pem''), (''cert'', JStr ''c.pem'')])]));
        plain = projr (constructor_nodecaf Map.empty Map.empty None (JObj []));
        a = projr (constructor Map.empty None (JObj [(''conf'', JObj [(''delay'', JNum 5)])]));
        s = run [Call Start, Resume 0 None, Resume 0 None] \<lparr>self = a, tasks = []\<rparr>
    in field (n_conf secure) ''port'' = JNum 443
       \<and> fst (start_nodecaf None Listens secure) = ReturnedThis
       \<and> n_server (snd (start_nodecaf None Listens secure))
            = Some \<lparr>port = JNum 443, encrypted = True\<rparr>
       \<and> field (n_conf plain) ''port'' = JNum 80
       \<and> fst (start_nodecaf None Listens plain) = ReturnedThis
       \<and> n_server (snd (start_nodecaf None Listens plain))
            = Some \<lparr>port = JNum 80, encrypted = False\<rparr>
       \<and> field (conf a) ''port'' = JUndefined \<and> state a = Standby \<and> server a = None
       \<and> at (tasks s ! 0) = Resolved (JStr ''running'')
       \<and> state (self s) = Running \<and> server (self s) = None \<and> binds (self s) = 0)"
proof -
  define disk where "disk = [''k.pem'' \<mapsto> ''K'', ''c.pem'' \<mapsto> ''C'']"
  define kvs where "kvs = [(''ssl'', JObj [(''key'', JStr ''k.pem''), (''cert'', JStr ''c.pem'')])]"
  define secure where "secure = projr (constructor_nodecaf Map.empty disk None (JObj kvs))"
  define plain where "plain = projr (constructor_nodecaf Map.empty Map.empty None (JObj []))"
  define opts where "opts = [(''conf'', JObj [(''delay'', JNum 5)])]"
  define a where "a = projr (constructor Map.empty None (JObj opts))"
  define s where "s = run [Call Start, Resume 0 None, Resume 0 None] \<lparr>self = a, tasks = []\<rparr>"
  have m1: "constructor_nodecaf Map.empty disk None (JObj kvs) = Inr secure"
    "map_of kvs ''port'' = None" "truthy (field kvs ''ssl'')"
    by (simp_all add: secure_def kvs_def disk_def constructor_nodecaf_def setup_nodecaf_def
        confort_def load_ssl_def readFileSync_def js_or_def field_def)
  from port_default [where fs = Map.empty and disk = disk and pkg = None and kvs = kvs
      and n = secure, THEN conjunct1] m1
  have "field (n_conf secure) ''port'' = JNum 443
      \<and> (\<exists>n'. start_nodecaf None Listens secure = (ReturnedThis, n')
            \<and> n_server n' = Some \<lparr>port = JNum 443, encrypted = True\<rparr>)"
    by auto
  then have sec: "field (n_conf secure) ''port'' = JNum 443"
    "fst (start_nodecaf None Listens secure) = ReturnedThis"
    "n_server (snd (start_nodecaf None Listens secure)) = Some \<lparr>port = JNum 443, encrypted = True\<rparr>"
    by auto
  have m2: "constructor_nodecaf Map.empty Map.empty None (JObj []) = Inr plain"
    "map_of [] ''port'' = (None :: jsval option)" "\<not> truthy (field [] ''ssl'')"
    by (simp_all add: plain_def constructor_nodecaf_def setup_nodecaf_def
        confort_def load_ssl_def js_or_def field_def)
  from port_default [where fs = Map.empty and disk = Map.empty and pkg = None and kvs = "[]"
      and n = plain, THEN conjunct1] m2
  have "field (n_conf plain) ''port'' = JNum 80
      \<and> (\<exists>n'. start_nodecaf None Listens plain = (ReturnedThis, n')
            \<and> n_server n' = Some \<lparr>port = JNum 80, encrypted = False\<rparr>)"
    by auto
  then have pl: "field (n_conf plain) ''port'' = JNum 80"
    "fst (start_nodecaf None Listens plain) = ReturnedThis"
    "n_server (snd (start_nodecaf None Listens plain)) = Some \<lparr>port = JNum 80, encrypted = False\<rparr>"
    by auto
  have made: "constructor Map.empty None (JObj opts) = Inr a"
    "field opts ''conf'' = JObj [(''delay'', JNum 5)]" "map_of [(''delay'', JNum 5)] ''port'' = None"
    by (simp_all add: a_def opts_def eval_defs)
  from port_default [where fs = Map.empty and pkg = None and opts = opts and a = a
      and kvs = "[(''delay'', JNum 5)]", THEN conjunct2, THEN conjunct1] made
  have a: "field (conf a) ''port'' = JUndefined" "state a = Standby" "server a = None"
    by blast+
  have fn: "typeof (startup a) = ''function''" "binds a = 0"
    by (simp_all add: a_def opts_def eval_defs)
  have nt: "\<not> truthy (field (conf a) ''port'')" using a(1) by simp
  from port_default [where a = a and ts = "[]", THEN conjunct2, THEN conjunct2] a(2) nt fn(1)
  have "\<exists>a1. run [Call Start, Resume (length ([] :: task list)) None,
                            Resume (length ([] :: task list)) None] \<lparr>self = a, tasks = []\<rparr>
              = \<lparr>self = a1, tasks = [] @ [\<lparr>oper = Start, at = Resolved (JStr ''running'')\<rparr>]\<rparr>
            \<and> state a1 = Running \<and> server a1 = server a \<and> binds a1 = binds a
            \<and> conf a1 = conf a
            \<and> last (events a1) = LogCall Info ''%s v%s has started'' [name a, version a]"
    by blast
  then obtain a1 where r: "run [Call Start, Resume (length ([] :: task list)) None,
                            Resume (length ([] :: task list)) None] \<lparr>self = a, tasks = []\<rparr>
              = \<lparr>self = a1, tasks = [] @ [\<lparr>oper = Start, at = Resolved (JStr ''running'')\<rparr>]\<rparr>"
    and a1: "state a1 = Running" "server a1 = server a" "binds a1 = binds a"
    by blast
  have s1: "at (tasks s ! 0) = Resolved (JStr ''running'')" "state (self s) = Running"
    "server (self s) = None" "binds (self s) = 0"
    using r a1 a(3) fn(2) unfolding s_def by simp_all
  show ?thesis
    unfolding Let_def
    using sec pl a s1
    unfolding s_def a_def opts_def plain_def secure_def kvs_def disk_def
    by (intro conjI) assumption+
qed

section \<open>Restarting\<close>

lemma reloaded_emit [simp]:
  "reloaded (emit e a)
     = (if e = LogCall Debug ''Reloaded settings'' [] then Suc (reloaded a) else reloaded a)"
  by (simp add: reloaded_def emit_def)

lemma reloaded_updates [simp]:
  "reloaded (a\<lparr>state := x\<rparr>) = reloaded a"
  "reloaded (a\<lparr>global := g\<rparr>) = reloaded a"
  "reloaded (a\<lparr>api := p\<rparr>) = reloaded a"
  "reloaded (a\<lparr>server := l\<rparr>) = reloaded a"
  by (simp_all add: reloaded_def)

lemma reloaded_events:
  "events a' = events a @ es \<Longrightarrow> LogCall Debug ''Reloaded settings'' [] \<notin> set es
     \<Longrightarrow> reloaded a' = reloaded a"
  by (auto simp: reloaded_def filter_empty_conv)

lemma reloaded_same_absent:
  assumes "events a' = events a @ es" "reloaded a' = reloaded a"
  shows "LogCall Debug ''Reloaded settings'' [] \<notin> set es"
  using assms by (auto simp: reloaded_def filter_empty_conv)

lemma records_subset: "set (records lg es) \<subseteq> set es"
  by (induction lg es rule: records.induct) auto

lemma reload_records_absent:
  "LogCall Debug ''Reloaded settings'' [] \<notin> set es \<Longrightarrow> reload_records lg es = 0"
  using records_subset [of lg es] by (auto simp: reload_records_def filter_empty_conv)

text \<open>The records of a restart: those of the stop, of the reload and of the start.\<close>

lemma reload_records_restart:
  assumes "LogCall Debug ''Reloaded settings'' [] \<notin> set es"
  shows "reload_records lg
           ((if b then [CloseCalled] else [])
              @ [HookCalled Shutdown, LogCall Info ''Stopped'' []]
              @ LogCall Debug ''Reloaded settings'' [] # Configured c # [LoggerMade l] @ es)
         = (if admits lg Debug then 1 else 0)"
  using reload_records_absent [OF assms, of l] by (simp add: reload_records_def)

text \<open>Lines 158-161 for an object: the log call, then \<^verbatim>\<open>setup\<close>.\<close>

lemma restart_reload_object:
  assumes "restart_reload (JObj kvs) a = (e, a')"
  shows "state a' = state a" and "server a' = server a"
    and "startup a' = startup a" and "shutdown a' = shutdown a"
    and "events a' = events a @ LogCall Debug ''Reloaded settings'' [] # Configured (JObj kvs)
                        # (if e = None then [LoggerMade (log a')] else [])"
    and "\<forall>k. k \<noteq> ''log'' \<longrightarrow>
           field (conf a') k = (case map_of kvs k of Some v \<Rightarrow> v | None \<Rightarrow> field (conf a) k)"
    and "fst ` set (conf a') = fst ` set (conf a) \<union> fst ` set kvs"
    and "reloaded a' = Suc (reloaded a)"
proof -
  let ?a0 = "emit (LogCall Debug ''Reloaded settings'' []) a"
  have s: "setup_app (JObj kvs) ?a0 = (e, a')"
    using assms by (simp add: restart_reload_def)
  note p = setup_app_object [OF s]
  have c0: "conf ?a0 = conf a" by simp
  show "state a' = state a" and "server a' = server a"
    and "startup a' = startup a" and "shutdown a' = shutdown a"
    using p(1-4) by (simp_all add: emit_def)
  show ev: "events a' = events a @ LogCall Debug ''Reloaded settings'' [] # Configured (JObj kvs)
                        # (if e = None then [LoggerMade (log a')] else [])"
    using p(8) by (simp add: emit_def)
  show "\<forall>k. k \<noteq> ''log'' \<longrightarrow>
           field (conf a') k = (case map_of kvs k of Some v \<Rightarrow> v | None \<Rightarrow> field (conf a) k)"
    using p(9) unfolding c0 .
  show "fst ` set (conf a') = fst ` set (conf a) \<union> fst ` set kvs"
    using p(10) unfolding c0 .
  show "reloaded a' = Suc (reloaded a)"
    using ev by (simp add: reloaded_def)
qed

lemma restart_waits:
  assumes "i < length (tasks s)" "tasks s ! i = \<lparr>oper = Restart c, at = AwaitStop k\<rparr>"
    "k < length (tasks s)" "\<not> settled (at (tasks s ! k))"
  shows "step (Resume i f) s = s"
  using assms
  by (cases "at (tasks s ! k)") (simp_all add: resume_def restart_after_stop_def)

lemma restart_reloads_then_starts:
  assumes "i < length (tasks s)" "tasks s ! i = \<lparr>oper = Restart c, at = AwaitStop k\<rparr>"
    "k < length (tasks s)" "at (tasks s ! k) = Resolved v"
    "restart_reload c (self s) = (None, a')"
  shows "step (Resume i f) s =
           \<lparr>self = snd (start_enter a'),
            tasks = (tasks s)[i := \<lparr>oper = Restart c, at = AwaitStart (length (tasks s))\<rparr>]
                      @ [\<lparr>oper = Start, at = fst (start_enter a')\<rparr>]\<rparr>"
  using assms
  by (simp add: resume_def restart_after_stop_def move_def invoke_start_def
      list_update_append nth_append split: prod.split)

lemma restart_rejected_by_setup:
  assumes "i < length (tasks s)" "tasks s ! i = \<lparr>oper = Restart c, at = AwaitStop k\<rparr>"
    "k < length (tasks s)" "at (tasks s ! k) = Resolved v"
    "restart_reload c (self s) = (Some e, a')"
  shows "step (Resume i f) s =
           \<lparr>self = a', tasks = (tasks s)[i := \<lparr>oper = Restart c, at = Rejected e\<rparr>]\<rparr>"
  using assms
  by (simp add: resume_def restart_after_stop_def move_def)

lemma start_after_startup_ok:
  "start_after_startup None a =
     (if truthy (field (conf a) ''port'') then (AwaitServer, startServer_listen a)
      else (Resolved (JStr ''running''),
            (emit (LogCall Info ''%s v%s has started'' [name a, version a]) a)\<lparr>state := Running\<rparr>))"
  by (simp add: start_after_startup_def)

lemma start_after_server_ok:
  "start_after_server None a = (Resolved (JStr ''running''), (startServer_ready a)\<lparr>state := Running\<rparr>)"
  by (simp add: start_after_server_def)

lemma resume_settled:
  "settled p \<Longrightarrow>
     step (Resume (length ts) f) \<lparr>self = a, tasks = ts @ [\<lparr>oper = g, at = p\<rparr>]\<rparr>
       = \<lparr>self = a, tasks = ts @ [\<lparr>oper = g, at = p\<rparr>]\<rparr>"
  by (cases p) (simp_all add: resume_def)

lemma resume_beyond:
  "length ts \<le> i \<Longrightarrow> step (Resume i f) \<lparr>self = a, tasks = ts\<rparr> = \<lparr>self = a, tasks = ts\<rparr>"
  by (simp add: resume_def)

lemma reloaded_start_after_delay: "reloaded (snd (start_after_delay a)) = reloaded a"
  by (simp add: start_after_delay_def call_hook_def Let_def split: sum.split)

text \<open>A start run alone to its end, the hook and the listener succeeding.\<close>

lemma start_run:
  assumes "state a = Standby" "typeof (startup a) = ''function''"
  shows "\<exists>a1. run [Call Start, Resume (length ts) None, Resume (length ts) None,
                    Resume (length ts) None] \<lparr>self = a, tasks = ts\<rparr>
              = \<lparr>self = a1, tasks = ts @ [\<lparr>oper = Start, at = Resolved (JStr ''running'')\<rparr>]\<rparr>
            \<and> state a1 = Running \<and> conf a1 = conf a \<and> reloaded a1 = reloaded a
            \<and> (\<exists>es. events a1 = events a @ es)"
proof -
  let ?a0 = "a\<lparr>state := Starting, events := events a @ [TimerSet (field (conf a) ''delay'')]\<rparr>"
  let ?a1 = "snd (start_after_delay ?a0)"
  have f0: "typeof (startup ?a0) = ''function''" using assms(2) by simp
  note d = start_after_delay_function [OF f0]
  from d(11) obtain mid where "events ?a1 = events ?a0 @ mid @ [HookCalled Startup]" by blast
  then have e1: "events ?a1
      = events a @ (TimerSet (field (conf a) ''delay'') # mid @ [HookCalled Startup])"
    by simp
  have r0: "reloaded ?a0 = reloaded a" by (simp add: reloaded_def)
  have r1: "reloaded ?a1 = reloaded a" using reloaded_start_after_delay [of ?a0] r0 by simp
  have two: "run [Call Start, Resume (length ts) None] \<lparr>self = a, tasks = ts\<rparr>
      = \<lparr>self = ?a1, tasks = ts @ [\<lparr>oper = Start, at = AwaitStartup\<rparr>]\<rparr>"
    unfolding run.simps call_start_standby [OF assms(1)] resume_delay d(1) by simp
  have split: "run [Call Start, Resume (length ts) None, Resume (length ts) None,
                    Resume (length ts) None] \<lparr>self = a, tasks = ts\<rparr>
        = step (Resume (length ts) None) (step (Resume (length ts) None)
            (run [Call Start, Resume (length ts) None] \<lparr>self = a, tasks = ts\<rparr>))"
    by simp
  show ?thesis
  proof (cases "truthy (field (conf ?a1) ''port'')")
    case True
    let ?a2 = "startServer_listen ?a1"
    let ?a3 = "(startServer_ready ?a2)\<lparr>state := Running\<rparr>"
    have up: "start_after_startup None ?a1 = (AwaitServer, ?a2)"
      using True by (simp add: start_after_startup_ok)
    have three: "step (Resume (length ts) None)
            (run [Call Start, Resume (length ts) None] \<lparr>self = a, tasks = ts\<rparr>)
        = \<lparr>self = ?a2, tasks = ts @ [\<lparr>oper = Start, at = AwaitServer\<rparr>]\<rparr>"
      unfolding two resume_startup up by simp
    have r: "run [Call Start, Resume (length ts) None, Resume (length ts) None,
                    Resume (length ts) None] \<lparr>self = a, tasks = ts\<rparr>
        = \<lparr>self = ?a3, tasks = ts @ [\<lparr>oper = Start, at = Resolved (JStr ''running'')\<rparr>]\<rparr>"
      unfolding split three resume_server start_after_server_ok by simp
    have "state ?a3 = Running" "conf ?a3 = conf a" "reloaded ?a3 = reloaded a"
      using d(3) r1 by (simp_all add: startServer_ready_def startServer_listen_def Let_def)
    moreover have "\<exists>es. events ?a3 = events a @ es"
      by (simp add: startServer_ready_def startServer_listen_def Let_def emit_def e1)
    ultimately show ?thesis using r by blast
  next
    case False
    let ?a2 = "(emit (LogCall Info ''%s v%s has started'' [name ?a1, version ?a1]) ?a1)\<lparr>state := Running\<rparr>"
    have up: "start_after_startup None ?a1 = (Resolved (JStr ''running''), ?a2)"
      using False by (simp add: start_after_startup_ok)
    have three: "step (Resume (length ts) None)
            (run [Call Start, Resume (length ts) None] \<lparr>self = a, tasks = ts\<rparr>)
        = \<lparr>self = ?a2, tasks = ts @ [\<lparr>oper = Start, at = Resolved (JStr ''running'')\<rparr>]\<rparr>"
      unfolding two resume_startup up by simp
    have four: "step (Resume (length ts) None)
          \<lparr>self = ?a2, tasks = ts @ [\<lparr>oper = Start, at = Resolved (JStr ''running'')\<rparr>]\<rparr>
        = \<lparr>self = ?a2, tasks = ts @ [\<lparr>oper = Start, at = Resolved (JStr ''running'')\<rparr>]\<rparr>"
      by (rule resume_settled) simp
    have r: "run [Call Start, Resume (length ts) None, Resume (length ts) None,
                    Resume (length ts) None] \<lparr>self = a, tasks = ts\<rparr>
        = \<lparr>self = ?a2, tasks = ts @ [\<lparr>oper = Start, at = Resolved (JStr ''running'')\<rparr>]\<rparr>"
      unfolding split three four ..
    have "state ?a2 = Running" "conf ?a2 = conf a" "reloaded ?a2 = reloaded a"
      using d(3) r1 by simp_all
    moreover have "\<exists>es. events ?a2 = events a @ es"
      by (simp add: emit_def e1)
    ultimately show ?thesis using r by blast
  qed
qed

lemma nth_append_Suc_length [simp]: "(xs @ x # y # ys) ! Suc (length xs) = y"
  by (simp add: nth_append)

lemma nth_append_Suc_Suc_length [simp]: "(xs @ x # y # z # zs) ! Suc (Suc (length xs)) = z"
  by (simp add: nth_append)

text \<open>A restart of a running server with an object, run alone: the stop, the reload,
  the start.\<close>

lemma restart_run:
  assumes h: "state a = Running" "typeof (startup a) = ''function''"
    "typeof (shutdown a) = ''function''"
    and r: "restart_reload (JObj kvs)
              (a\<lparr>state := Standby, global := None,
                 events := events a @ (if server a \<noteq> None then [CloseCalled] else [])
                             @ [HookCalled Shutdown, LogCall Info ''Stopped'' []]\<rparr>) = (e, a3)"
  shows "case e of
           Some err \<Rightarrow>
             at (tasks (run [Call (Restart (JObj kvs)),
                   Resume (Suc (length ts)) None, Resume (Suc (length ts)) None,
                   Resume (length ts) None,
                   Resume (Suc (Suc (length ts))) None, Resume (Suc (Suc (length ts))) None,
                   Resume (Suc (Suc (length ts))) None,
                   Resume (length ts) None] \<lparr>self = a, tasks = ts\<rparr>) ! length ts) = Rejected err
         | None \<Rightarrow>
             (\<exists>a7. run [Call (Restart (JObj kvs)),
                   Resume (Suc (length ts)) None, Resume (Suc (length ts)) None,
                   Resume (length ts) None,
                   Resume (Suc (Suc (length ts))) None, Resume (Suc (Suc (length ts))) None,
                   Resume (Suc (Suc (length ts))) None,
                   Resume (length ts) None] \<lparr>self = a, tasks = ts\<rparr>
                 = \<lparr>self = a7,
                    tasks = ts @ [\<lparr>oper = Restart (JObj kvs), at = Resolved JUndefined\<rparr>,
                                  \<lparr>oper = Stop, at = Resolved (JStr ''standby'')\<rparr>,
                                  \<lparr>oper = Start, at = Resolved (JStr ''running'')\<rparr>]\<rparr>
                \<and> state a7 = Running \<and> conf a7 = conf a3 \<and> reloaded a7 = reloaded a3
                \<and> (\<exists>es. events a7 = events a3 @ es))"
proof -
  let ?c = "JObj kvs"
  let ?n = "length ts"
  let ?R = "\<lparr>oper = Restart ?c, at = AwaitStop (Suc ?n)\<rparr>"
  let ?S = "\<lparr>oper = Stop, at = Resolved (JStr ''standby'')\<rparr>"
  let ?a2 = "a\<lparr>state := Standby, global := None,
                 events := events a @ (if server a \<noteq> None then [CloseCalled] else [])
                             @ [HookCalled Shutdown, LogCall Info ''Stopped'' []]\<rparr>"
  let ?sched = "[Call (Restart ?c), Resume (Suc ?n) None, Resume (Suc ?n) None,
                   Resume ?n None,
                   Resume (Suc (Suc ?n)) None, Resume (Suc (Suc ?n)) None,
                   Resume (Suc (Suc ?n)) None,
                   Resume ?n None]"
  have split: "run ?sched \<lparr>self = a, tasks = ts\<rparr>
      = step (Resume ?n None)
          (run [Resume (Suc (Suc ?n)) None, Resume (Suc (Suc ?n)) None, Resume (Suc (Suc ?n)) None]
             (step (Resume ?n None)
                (run [Call (Restart ?c), Resume (Suc ?n) None, Resume (Suc ?n) None]
                   \<lparr>self = a, tasks = ts\<rparr>)))"
    by simp
  have "run [Call (Restart ?c), Resume (Suc ?n) None, Resume (Suc ?n) None] \<lparr>self = a, tasks = ts\<rparr>
      = run [Call Stop, Resume (length (ts @ [?R])) None, Resume (length (ts @ [?R])) None]
          \<lparr>self = a, tasks = ts @ [?R]\<rparr>"
    by (simp add: invoke_restart_def Let_def)
  also have "\<dots> = \<lparr>self = ?a2, tasks = (ts @ [?R]) @ [?S]\<rparr>"
    by (rule stop_run [OF h(1) h(3)])
  finally have p1: "run [Call (Restart ?c), Resume (Suc ?n) None, Resume (Suc ?n) None]
        \<lparr>self = a, tasks = ts\<rparr> = \<lparr>self = ?a2, tasks = ts @ [?R, ?S]\<rparr>"
    by simp
  let ?s3 = "\<lparr>self = ?a2, tasks = ts @ [?R, ?S]\<rparr>"
  have pre: "?n < length (tasks ?s3)" "tasks ?s3 ! ?n = ?R" "Suc ?n < length (tasks ?s3)"
    "at (tasks ?s3 ! Suc ?n) = Resolved (JStr ''standby'')"
    by simp_all
  have r': "restart_reload ?c (self ?s3) = (e, a3)" using r by simp
  show ?thesis
  proof (cases e)
    case (Some err)
    let ?s4 = "\<lparr>self = a3, tasks = ts @ [\<lparr>oper = Restart ?c, at = Rejected err\<rparr>, ?S]\<rparr>"
    have p2: "step (Resume ?n None) ?s3 = ?s4"
      using restart_rejected_by_setup [OF pre, of err a3 None] r' Some by simp
    have beyond: "step (Resume (Suc (Suc ?n)) None) ?s4 = ?s4"
      by (rule resume_beyond) simp
    have p3: "run [Resume (Suc (Suc ?n)) None, Resume (Suc (Suc ?n)) None,
                   Resume (Suc (Suc ?n)) None] ?s4 = ?s4"
      unfolding run.simps beyond ..
    have p4: "step (Resume ?n None) ?s4 = ?s4"
      by (simp add: resume_def)
    have "run ?sched \<lparr>self = a, tasks = ts\<rparr> = ?s4"
      unfolding split p1 p2 p3 p4 ..
    then show ?thesis using Some by simp
  next
    case None
    let ?R' = "\<lparr>oper = Restart ?c, at = AwaitStart (Suc (Suc ?n))\<rparr>"
    let ?ts' = "ts @ [?R', ?S]"
    note o = restart_reload_object [OF r]
    have st: "state a3 = Standby" "typeof (startup a3) = ''function''"
      using o(1,3) h(2) by simp_all
    have "step (Resume ?n None) ?s3 =
           \<lparr>self = snd (start_enter a3),
            tasks = (tasks ?s3)[?n := \<lparr>oper = Restart ?c, at = AwaitStart (length (tasks ?s3))\<rparr>]
                      @ [\<lparr>oper = Start, at = fst (start_enter a3)\<rparr>]\<rparr>"
      using restart_reloads_then_starts [OF pre, of a3 None] r' None by simp
    also have "\<dots> = step (Call Start) \<lparr>self = a3, tasks = ?ts'\<rparr>"
      by (simp add: invoke_start_def split: prod.split)
    finally have p2: "step (Resume ?n None) ?s3 = step (Call Start) \<lparr>self = a3, tasks = ?ts'\<rparr>" .
    from start_run [OF st, of ?ts'] obtain a7 where
      p3: "run [Call Start, Resume (length ?ts') None, Resume (length ?ts') None,
              Resume (length ?ts') None] \<lparr>self = a3, tasks = ?ts'\<rparr>
            = \<lparr>self = a7, tasks = ?ts' @ [\<lparr>oper = Start, at = Resolved (JStr ''running'')\<rparr>]\<rparr>"
      and a7: "state a7 = Running" "conf a7 = conf a3" "reloaded a7 = reloaded a3"
        "\<exists>es. events a7 = events a3 @ es"
      by blast
    have "run [Resume (Suc (Suc ?n)) None, Resume (Suc (Suc ?n)) None, Resume (Suc (Suc ?n)) None]
             (step (Resume ?n None) ?s3)
        = run [Call Start, Resume (length ?ts') None, Resume (length ?ts') None,
              Resume (length ?ts') None] \<lparr>self = a3, tasks = ?ts'\<rparr>"
      unfolding p2 by simp
    then have p23: "run [Resume (Suc (Suc ?n)) None, Resume (Suc (Suc ?n)) None,
               Resume (Suc (Suc ?n)) None] (step (Resume ?n None) ?s3)
        = \<lparr>self = a7, tasks = ?ts' @ [\<lparr>oper = Start, at = Resolved (JStr ''running'')\<rparr>]\<rparr>"
      unfolding p3 .
    have p4: "step (Resume ?n None)
          \<lparr>self = a7, tasks = ?ts' @ [\<lparr>oper = Start, at = Resolved (JStr ''running'')\<rparr>]\<rparr>
        = \<lparr>self = a7,
           tasks = ts @ [\<lparr>oper = Restart ?c, at = Resolved JUndefined\<rparr>, ?S,
                         \<lparr>oper = Start, at = Resolved (JStr ''running'')\<rparr>]\<rparr>"
      by (simp add: resume_def restart_after_start_def move_def)
    have "run ?sched \<lparr>self = a, tasks = ts\<rparr>
        = \<lparr>self = a7,
           tasks = ts @ [\<lparr>oper = Restart ?c, at = Resolved JUndefined\<rparr>, ?S,
                         \<lparr>oper = Start, at = Resolved (JStr ''running'')\<rparr>]\<rparr>"
      unfolding split p1 p23 p4 ..
    then show ?thesis using None a7 by simp
  qed
qed

lemma setup_app_log:
  assumes "setup_app (JObj kvs) a = (None, a')"
  shows "if truthy (field (AList.merge (conf a) kvs) ''log'')
         then set_log_defaults (name a) (field (AList.merge (conf a) kvs) ''log'')
                = Inr (field (conf a') ''log'')
         else field (conf a') ''log'' = field (AList.merge (conf a) kvs) ''log''"
  using assms
  by (auto simp: setup_app_def confort_def js_or_def emit_def Let_def field_update_same
      split: if_splits sum.splits)

lemma restart_reload_log:
  assumes "restart_reload (JObj kvs) a = (None, a')"
  shows "if truthy (field (AList.merge (conf a) kvs) ''log'')
         then set_log_defaults (name a) (field (AList.merge (conf a) kvs) ''log'')
                = Inr (field (conf a') ''log'')
         else field (conf a') ''log'' = field (AList.merge (conf a) kvs) ''log''"
proof -
  have s: "setup_app (JObj kvs) (emit (LogCall Debug ''Reloaded settings'' []) a) = (None, a')"
    using assms by (simp add: restart_reload_def)
  have n: "name (emit (LogCall Debug ''Reloaded settings'' []) a) = name a"
    by (simp add: emit_def)
  from setup_app_log [OF s] show ?thesis
    unfolding conf_emit n .
qed




end
